theory Spec2Isabelle
  imports Complex_Main "HOL-Library.Log_Nat" "HOL-Library.Multiset"
begin

section \<open>Python numbers\<close>

text \<open>
  The program computes with Python \<^verbatim>\<open>int\<close> (unbounded) and \<^verbatim>\<open>float\<close> (IEEE 754
  binary64). A finite binary64 value is a rational number, so a float is modelled by the
  rational it denotes and every float operation is the exact operation followed by
  rounding to the nearest binary64 value, ties to even (\<open>fl\<close>). Subnormal spacing is
  modelled; infinities, NaN and overflow are not: the development is about finite inputs
  whose results stay below \<open>2 ^ 1024\<close> in magnitude.
\<close>

definition round_half_even :: "rat \<Rightarrow> int" where
  "round_half_even x =
     (let f = \<lfloor>x\<rfloor>; d = x - of_int f
      in if d < 1 / 2 then f else if 1 / 2 < d then f + 1 else if even f then f else f + 1)"

text \<open>\<open>expo x\<close> is the binary exponent of \<open>x \<noteq> 0\<close>: \<open>2 powi expo x \<le> \<bar>x\<bar> < 2 powi (expo x + 1)\<close>.\<close>

definition expo :: "rat \<Rightarrow> int" where
  "expo x =
     (let (a, b) = quotient_of \<bar>x\<bar>;
          e0 = bitlen a - bitlen b
      in if 2 powi e0 \<le> \<bar>x\<bar> then e0 else e0 - 1)"

text \<open>The spacing of binary64 values around \<open>x\<close>: 53 significant bits, least exponent \<open>-1022\<close>.\<close>

definition ulp :: "rat \<Rightarrow> rat" where
  "ulp x = 2 powi (max (expo x) (- 1022) - 52)"

definition fl :: "rat \<Rightarrow> rat" where
  "fl x = (if x = 0 then 0 else of_int (round_half_even (x / ulp x)) * ulp x)"

datatype pynum = PyInt int | PyFloat rat

datatype error =
    InvalidPlantTypeProvided
  | ManualInterventionNeeded
  | ZeroDivisionError
  | TypeError
  | UnboundLocalError

text \<open>The mathematical value; Python compares an int with a float by value.\<close>

fun val :: "pynum \<Rightarrow> rat" where
  "val (PyInt n) = of_int n"
| "val (PyFloat x) = x"

text \<open>\<^verbatim>\<open>float(x)\<close>: an int is converted to the nearest float.\<close>

fun py_float :: "pynum \<Rightarrow> rat" where
  "py_float (PyInt n) = fl (of_int n)"
| "py_float (PyFloat x) = x"

text \<open>
  \<^verbatim>\<open>round(x, 1)\<close>: an int is returned as it is; a float is rounded to one decimal place on
  its exact value, ties to even, and the decimal result is converted back to a float.
\<close>

fun py_round1 :: "pynum \<Rightarrow> pynum" where
  "py_round1 (PyInt n) = PyInt n"
| "py_round1 (PyFloat x) = PyFloat (fl (of_int (round_half_even (x * 10)) / 10))"

text \<open>\<^verbatim>\<open>a - b\<close> and \<^verbatim>\<open>a * b\<close>: exact on two ints, otherwise on the operands as floats.\<close>

fun py_sub :: "pynum \<Rightarrow> pynum \<Rightarrow> pynum" where
  "py_sub (PyInt a) (PyInt b) = PyInt (a - b)"
| "py_sub a b = PyFloat (fl (py_float a - py_float b))"

fun py_mul :: "pynum \<Rightarrow> pynum \<Rightarrow> pynum" where
  "py_mul (PyInt a) (PyInt b) = PyInt (a * b)"
| "py_mul a b = PyFloat (fl (py_float a * py_float b))"

text \<open>
  \<^verbatim>\<open>a / b\<close>: true division always gives a float and raises on a zero divisor; on two
  ints the exact quotient is rounded once.
\<close>

fun py_truediv :: "pynum \<Rightarrow> pynum \<Rightarrow> error + pynum" where
  "py_truediv (PyInt a) (PyInt b) =
     (if b = 0 then Inl ZeroDivisionError else Inr (PyFloat (fl (of_int a / of_int b))))"
| "py_truediv a b =
     (if val b = 0 then Inl ZeroDivisionError
      else Inr (PyFloat (fl (py_float a / py_float b))))"

section \<open>Data model\<close>

record Fuels =
  gas :: rat
  kerosine :: rat
  co2 :: int
  wind :: int

text \<open>
  \<^verbatim>\<open>Powerplant\<close> declares \<^verbatim>\<open>pmax\<close> twice; the second declaration,
  \<^verbatim>\<open>Optional[int] = None\<close>, is the one in force. The engine later stores a float in it.
\<close>

record Powerplant =
  name :: string
  type :: string
  efficiency :: rat
  pmin :: int
  cost_per_MWH :: "pynum option"
  pmax :: "pynum option"

record ResultItem =
  name :: string
  p :: rat

text \<open>
  Powerplant objects live in a store; lists hold their addresses, so that
  \<^verbatim>\<open>list(self.powerplants)\<close> copies the list and shares the objects.
\<close>

type_synonym addr = nat
type_synonym heap = "addr \<Rightarrow> Powerplant"

record ProductionPlanCalculator =
  load :: int
  fuels :: Fuels
  powerplants :: "addr list"

section \<open>The dispatch engine\<close>

definition calculate_cost_per_MWH :: "Fuels \<Rightarrow> Powerplant \<Rightarrow> error + pynum" where
  "calculate_cost_per_MWH fs powerplant =
     (if type powerplant = ''gasfired''
        then py_truediv (PyFloat (gas fs)) (PyFloat (efficiency powerplant))
      else if type powerplant = ''turbojet''
        then py_truediv (PyFloat (kerosine fs)) (PyFloat (efficiency powerplant))
      else if type powerplant = ''windturbine''
        then Inr (PyInt 0)
      else Inl InvalidPlantTypeProvided)"

text \<open>
  \<^verbatim>\<open>calculate_pmax\<close> has no \<^verbatim>\<open>else\<close>: for any other type the local
  \<^verbatim>\<open>pmax\<close> is unbound at the \<^verbatim>\<open>return\<close>. \<^verbatim>\<open>None * int\<close> is a TypeError.
\<close>

definition calculate_pmax :: "Fuels \<Rightarrow> Powerplant \<Rightarrow> error + pynum option" where
  "calculate_pmax fs powerplant =
     (if type powerplant = ''windturbine'' then
        (case pmax powerplant of
           None \<Rightarrow> Inl TypeError
         | Some m \<Rightarrow>
             (case py_truediv (py_mul m (PyInt (wind fs))) (PyInt 100) of
                Inl e \<Rightarrow> Inl e
              | Inr c \<Rightarrow> Inr (Some c)))
      else if type powerplant \<in> set [''gasfired'', ''turbojet''] then Inr (pmax powerplant)
      else Inl UnboundLocalError)"

text \<open>
  The loop of \<^verbatim>\<open>get_sorted_powerplants_with_pmax_and_cost\<close>: it writes both derived
  fields into each object in turn and stops at the first exception, leaving the objects
  already visited changed.
\<close>

fun derive_loop :: "Fuels \<Rightarrow> addr list \<Rightarrow> heap \<Rightarrow> error option \<times> heap" where
  "derive_loop fs [] h = (None, h)"
| "derive_loop fs (a # as) h =
     (case calculate_cost_per_MWH fs (h a) of
        Inl e \<Rightarrow> (Some e, h)
      | Inr c \<Rightarrow>
          (let h1 = h(a := (h a)\<lparr>cost_per_MWH := Some c\<rparr>)
           in case calculate_pmax fs (h1 a) of
                Inl e \<Rightarrow> (Some e, h1)
              | Inr m \<Rightarrow> derive_loop fs as (h1(a := (h1 a)\<lparr>pmax := m\<rparr>))))"

text \<open>The sort key \<^verbatim>\<open>x.cost_per_MWH\<close>; the loop has set it on every object sorted.\<close>

definition cost_key :: "heap \<Rightarrow> addr \<Rightarrow> rat" where
  "cost_key h a = (case cost_per_MWH (h a) of Some c \<Rightarrow> val c | None \<Rightarrow> 0)"

text \<open>\<^verbatim>\<open>sorted\<close> is a stable sort, as \<open>sort_key\<close> is.\<close>

definition get_sorted_powerplants_with_pmax_and_cost ::
    "ProductionPlanCalculator \<Rightarrow> heap \<Rightarrow> (error + addr list) \<times> heap" where
  "get_sorted_powerplants_with_pmax_and_cost self h =
     (let plants = powerplants self
      in case derive_loop (fuels self) plants h of
           (Some e, h') \<Rightarrow> (Inl e, h')
         | (None, h') \<Rightarrow> (Inr (sort_key (cost_key h') plants), h'))"

text \<open>
  The loop of \<^verbatim>\<open>get_production_plan\<close>, with its three variables: the remaining load,
  \<^verbatim>\<open>power\<close> (unbound before its first assignment, \<open>pwr\<close> below) and the plan built so
  far. Where neither \<^verbatim>\<open>elif\<close> condition holds, \<^verbatim>\<open>power\<close> keeps its previous
  value. Comparing a number with \<^verbatim>\<open>None\<close> is a TypeError. The loop is returned with
  the remaining load it ends on; the method returns the plan alone.
\<close>

fun allocate ::
    "heap \<Rightarrow> addr list \<Rightarrow> pynum \<Rightarrow> rat option \<Rightarrow> ResultItem list
      \<Rightarrow> error + pynum \<times> ResultItem list" where
  "allocate h [] remaining_load pwr production_plan = Inr (remaining_load, production_plan)"
| "allocate h (a # as) remaining_load pwr production_plan =
     (let plant = h a in
      if 0 < val remaining_load then
        if val remaining_load < of_int (pmin plant) then Inl ManualInterventionNeeded
        else
          (case pmax plant of
             None \<Rightarrow> Inl TypeError
           | Some m \<Rightarrow>
               (let pwr' =
                      (if val m \<le> val remaining_load then Some (py_float (py_round1 m))
                       else if of_int (pmin plant) \<le> val remaining_load \<and> val remaining_load < val m
                         then Some (py_float (py_round1 remaining_load))
                       else pwr)
                in case pwr' of
                     None \<Rightarrow> Inl UnboundLocalError
                   | Some pw \<Rightarrow>
                       allocate h as (py_sub remaining_load (PyFloat pw)) (Some pw)
                         (production_plan @ [\<lparr>name = Powerplant.name plant, p = pw\<rparr>])))
      else
        allocate h as remaining_load (Some 0)
          (production_plan @ [\<lparr>name = Powerplant.name plant, p = 0\<rparr>]))"

definition get_production_plan ::
    "ProductionPlanCalculator \<Rightarrow> heap \<Rightarrow> (error + ResultItem list) \<times> heap" where
  "get_production_plan self h =
     (case get_sorted_powerplants_with_pmax_and_cost self h of
        (Inl e, h') \<Rightarrow> (Inl e, h')
      | (Inr plants, h') \<Rightarrow>
          (case allocate h' plants (PyInt (load self)) None [] of
             Inl e \<Rightarrow> (Inl e, h')
           | Inr (remaining_load, production_plan) \<Rightarrow> (Inr production_plan, h')))"

section \<open>The allocation as the specification words it\<close>

text \<open>
  The effective capacity of a ranked unit is what the engine has stored in \<^verbatim>\<open>pmax\<close>
  (absent only when the request left \<^verbatim>\<open>pmax\<close> out).
\<close>

definition effective_capacity :: "Powerplant \<Rightarrow> pynum" where
  "effective_capacity plant = (case pmax plant of Some m \<Rightarrow> m | None \<Rightarrow> PyInt 0)"

text \<open>A number rounded to one decimal place, as a float.\<close>

definition round1 :: "pynum \<Rightarrow> rat" where
  "round1 x = py_float (py_round1 x)"

definition assign :: "Powerplant \<Rightarrow> rat \<Rightarrow> error + ResultItem list \<Rightarrow> error + ResultItem list" where
  "assign plant q rest =
     (case rest of Inl e \<Rightarrow> Inl e | Inr items \<Rightarrow> Inr (\<lparr>name = Powerplant.name plant, p = q\<rparr> # items))"

text \<open>
  Greedy single pass over the ranked units with a running remaining load: a unit reached
  with nothing left gets 0 and stays listed; a unit whose minimum exceeds what is left
  aborts the whole computation; a unit that what is left fills gets its capacity, rounded;
  otherwise the unit gets what is left, rounded. The assigned output is subtracted.
\<close>

fun allocate_spec :: "heap \<Rightarrow> addr list \<Rightarrow> pynum \<Rightarrow> error + ResultItem list" where
  "allocate_spec h [] remaining = Inr []"
| "allocate_spec h (a # as) remaining =
     (if val remaining \<le> 0 then assign (h a) 0 (allocate_spec h as remaining)
      else if val remaining < of_int (pmin (h a)) then Inl ManualInterventionNeeded
      else if val (effective_capacity (h a)) \<le> val remaining then
        assign (h a) (round1 (effective_capacity (h a)))
          (allocate_spec h as (py_sub remaining (PyFloat (round1 (effective_capacity (h a))))))
      else
        assign (h a) (round1 remaining)
          (allocate_spec h as (py_sub remaining (PyFloat (round1 remaining)))))"

text \<open>
  The marginal cost of a unit as a number, for ranking: the value
  \<^verbatim>\<open>calculate_cost_per_MWH\<close> derives from the record (0 where it raises).
\<close>

definition unit_cost :: "Fuels \<Rightarrow> Powerplant \<Rightarrow> rat" where
  "unit_cost fs plant = (case calculate_cost_per_MWH fs plant of Inr c \<Rightarrow> val c | Inl e \<Rightarrow> 0)"

section \<open>Requests used as examples\<close>

definition wind_unit :: "string \<Rightarrow> int \<Rightarrow> Powerplant" where
  "wind_unit n mx =
     \<lparr>Powerplant.name = n, type = ''windturbine'', efficiency = 1, pmin = 0,
      cost_per_MWH = None, pmax = Some (PyInt mx)\<rparr>"

definition gas_unit :: "string \<Rightarrow> rat \<Rightarrow> int \<Rightarrow> int \<Rightarrow> Powerplant" where
  "gas_unit n eff mn mx =
     \<lparr>Powerplant.name = n, type = ''gasfired'', efficiency = eff, pmin = mn,
      cost_per_MWH = None, pmax = Some (PyInt mx)\<rparr>"

definition prices :: "int \<Rightarrow> Fuels" where
  "prices w = \<lparr>gas = 10, kerosine = 50, co2 = 20, wind = w\<rparr>"

text \<open>
  Load 480 at 60 percent wind; the objects at addresses 0, 1, 2 are a wind park of 200 and
  two gas plants, listed as gas, gas, wind.
\<close>

definition store1 :: heap where
  "store1 = (\<lambda>_. wind_unit ''wind'' 200)
     (1 := gas_unit ''gasA'' (1 / 2) 100 400, 2 := gas_unit ''gasB'' (1 / 4) 50 200)"

definition request1 :: ProductionPlanCalculator where
  "request1 = \<lparr>load = 480, fuels = prices 60, powerplants = [1, 2, 0]\<rparr>"

text \<open>Load 1000 on a single gas plant of 100.\<close>

definition store2 :: heap where
  "store2 = (\<lambda>_. gas_unit ''gas'' (1 / 2) 0 100)"

definition request2 :: ProductionPlanCalculator where
  "request2 = \<lparr>load = 1000, fuels = prices 60, powerplants = [0]\<rparr>"

text \<open>Load 1 at 25 percent wind on a wind park of 3.\<close>

definition store3 :: heap where
  "store3 = (\<lambda>_. wind_unit ''wind'' 3)"

definition request3 :: ProductionPlanCalculator where
  "request3 = \<lparr>load = 1, fuels = prices 25, powerplants = [0]\<rparr>"

text \<open>
  Load 1 at 10 percent wind: a wind park of 7, a gas plant without a minimum and a
  dearer gas plant with minimum 5.
\<close>

definition store4 :: heap where
  "store4 = (\<lambda>_. wind_unit ''wind'' 7)
     (1 := gas_unit ''gasA'' (1 / 2) 0 10, 2 := gas_unit ''gasB'' (1 / 4) 5 10)"

definition request4 :: ProductionPlanCalculator where
  "request4 = \<lparr>load = 1, fuels = prices 10, powerplants = [0, 1, 2]\<rparr>"

text \<open>Units the input model admits: an efficiency of 0, an absent \<^verbatim>\<open>pmax\<close>, an unknown type.\<close>

definition store5 :: heap where
  "store5 = (\<lambda>_. gas_unit ''gas'' 0 0 100)
     (1 := (wind_unit ''wind'' 0)\<lparr>pmax := None\<rparr>,
      2 := (gas_unit ''sun'' 1 0 100)\<lparr>type := ''solarfired''\<rparr>)"

definition request5 :: "addr \<Rightarrow> ProductionPlanCalculator" where
  "request5 a = \<lparr>load = 10, fuels = prices 60, powerplants = [a]\<rparr>"

section \<open>Properties of the float model\<close>

lemma round_half_even_of_int: "round_half_even (of_int n) = n"
  by (simp add: round_half_even_def)

lemma round_half_even_cases:
  "round_half_even x = \<lfloor>x\<rfloor> \<and> x - of_int \<lfloor>x\<rfloor> \<le> 1 / 2
   \<or> round_half_even x = \<lfloor>x\<rfloor> + 1 \<and> 1 / 2 \<le> x - of_int \<lfloor>x\<rfloor>"
  by (auto simp: round_half_even_def Let_def)

lemma round_half_even_error: "\<bar>of_int (round_half_even x) - x\<bar> \<le> 1 / 2"
proof -
  have "of_int \<lfloor>x\<rfloor> \<le> x" "x < of_int \<lfloor>x\<rfloor> + 1"
    by linarith+
  with round_half_even_cases [of x] show ?thesis
    by auto
qed

lemma round_half_even_mono:
  assumes "x \<le> y"
  shows "round_half_even x \<le> round_half_even y"
proof (cases "\<lfloor>x\<rfloor> = \<lfloor>y\<rfloor>")
  case True
  with assms show ?thesis
    by (auto simp: round_half_even_def Let_def)
next
  case False
  with assms have "\<lfloor>x\<rfloor> + 1 \<le> \<lfloor>y\<rfloor>"
    using floor_mono [of x y] by linarith
  moreover have "round_half_even x \<le> \<lfloor>x\<rfloor> + 1"
    using round_half_even_cases [of x] by auto
  moreover have "\<lfloor>y\<rfloor> \<le> round_half_even y"
    using round_half_even_cases [of y] by auto
  ultimately show ?thesis
    by linarith
qed

lemma round_half_even_ge: "of_int n \<le> x \<Longrightarrow> n \<le> round_half_even x"
  using round_half_even_mono [of "of_int n" x] by (simp add: round_half_even_of_int)

lemma round_half_even_le: "x \<le> of_int n \<Longrightarrow> round_half_even x \<le> n"
  using round_half_even_mono [of x "of_int n"] by (simp add: round_half_even_of_int)

lemma two_powi_bitlen:
  assumes "0 < a"
  shows "(2::rat) powi (bitlen a - 1) \<le> of_int a" and "of_int a < (2::rat) powi bitlen a"
proof -
  from assms have b: "2 ^ nat (bitlen a - 1) \<le> a" "a < 2 ^ nat (bitlen a)"
    using bitlen_bounds [of a] by auto
  from assms have pos: "1 \<le> bitlen a"
    using bitlen_eq_zero_iff [of a] bitlen_nonneg [of a] by linarith
  have "(2::rat) powi (bitlen a - 1) = of_int (2 ^ nat (bitlen a - 1))"
    using pos by (simp add: power_int_nonneg_exp)
  also have "\<dots> \<le> of_int a"
    using b(1) by (simp only: of_int_le_iff)
  finally show "(2::rat) powi (bitlen a - 1) \<le> of_int a" .
  have "(of_int a :: rat) < of_int (2 ^ nat (bitlen a))"
    using b(2) by (simp only: of_int_less_iff)
  also have "\<dots> = 2 powi bitlen a"
    using pos by (simp add: power_int_nonneg_exp)
  finally show "of_int a < (2::rat) powi bitlen a" .
qed

lemma expo_bounds:
  assumes "x \<noteq> 0"
  shows "2 powi expo x \<le> \<bar>x\<bar>" and "\<bar>x\<bar> < 2 powi (expo x + 1)"
proof -
  obtain a b where q: "quotient_of \<bar>x\<bar> = (a, b)"
    by (cases "quotient_of \<bar>x\<bar>")
  then have b: "0 < b" and x: "\<bar>x\<bar> = of_int a / of_int b"
    by (auto simp: quotient_of_denom_pos dest: quotient_of_div)
  from assms x b have a: "0 < a"
    by (metis abs_ge_zero assms abs_eq_0 divide_eq_0_iff less_le of_int_0_le_iff of_int_eq_0_iff
        of_int_pos zero_le_divide_iff not_less)
  define e0 where "e0 = bitlen a - bitlen b"
  have lo: "2 powi (e0 - 1) \<le> \<bar>x\<bar>"
  proof -
    have "(2::rat) powi (e0 - 1) * of_int b \<le> 2 powi (e0 - 1) * 2 powi bitlen b"
      using two_powi_bitlen(2) [OF b] by (intro mult_left_mono) auto
    also have "\<dots> = 2 powi (bitlen a - 1)"
      by (simp add: e0_def flip: power_int_add)
    also have "\<dots> \<le> of_int a"
      by (rule two_powi_bitlen(1) [OF a])
    finally show ?thesis
      using b by (simp add: x pos_le_divide_eq)
  qed
  have hi: "\<bar>x\<bar> < 2 powi (e0 + 1)"
  proof -
    have "(of_int a :: rat) < 2 powi bitlen a"
      by (rule two_powi_bitlen(2) [OF a])
    also have "\<dots> = 2 powi (e0 + 1) * 2 powi (bitlen b - 1)"
      by (simp add: e0_def flip: power_int_add)
    also have "\<dots> \<le> 2 powi (e0 + 1) * of_int b"
      using two_powi_bitlen(1) [OF b] by (intro mult_left_mono) auto
    finally show ?thesis
      using b by (simp add: x pos_divide_less_eq)
  qed
  have e: "expo x = (if 2 powi e0 \<le> \<bar>x\<bar> then e0 else e0 - 1)"
    by (simp add: expo_def q e0_def Let_def)
  show "2 powi expo x \<le> \<bar>x\<bar>"
    using lo by (simp add: e)
  show "\<bar>x\<bar> < 2 powi (expo x + 1)"
    using hi by (auto simp: e not_le)
qed

lemma round_half_even_minus: "round_half_even (- x) = - round_half_even x"
proof (cases "x = of_int \<lfloor>x\<rfloor>")
  case True
  then obtain n where "x = of_int n" ..
  then show ?thesis
    by (simp add: round_half_even_of_int flip: of_int_minus)
next
  case False
  then have fl: "\<lfloor>- x\<rfloor> = - \<lfloor>x\<rfloor> - 1"
    by (metis ceiling_altdef ceiling_def diff_minus_eq_add add_diff_cancel_right' minus_diff_eq
        minus_add_distrib uminus_add_conv_diff)
  show ?thesis
    unfolding round_half_even_def Let_def fl
    by (auto simp: algebra_simps)
qed

lemma ulp_pos: "0 < ulp x"
  by (simp add: ulp_def)

lemma fl_0: "fl 0 = 0"
  by (simp add: fl_def)

lemma fl_minus: "fl (- x) = - fl x"
proof -
  have "expo (- x) = expo x"
    by (simp add: expo_def)
  then have "ulp (- x) = ulp x"
    by (simp add: ulp_def)
  then show ?thesis
    by (simp add: fl_def round_half_even_minus)
qed

lemma fl_error: "\<bar>fl x - x\<bar> \<le> ulp x / 2"
proof (cases "x = 0")
  case True
  then show ?thesis
    using ulp_pos [of x] by (simp add: fl_0)
next
  case False
  let ?u = "ulp x"
  have u: "0 < ?u"
    by (rule ulp_pos)
  have "fl x - x = (of_int (round_half_even (x / ?u)) - x / ?u) * ?u"
    using False u by (simp add: fl_def algebra_simps)
  then have "\<bar>fl x - x\<bar> = \<bar>of_int (round_half_even (x / ?u)) - x / ?u\<bar> * ?u"
    using u by (simp add: abs_mult)
  also have "\<dots> \<le> 1 / 2 * ?u"
    using u round_half_even_error [of "x / ?u"] by (intro mult_right_mono) auto
  finally show ?thesis
    by simp
qed

lemma fl_nonneg: "0 \<le> x \<Longrightarrow> 0 \<le> fl x"
  using ulp_pos [of x] round_half_even_ge [of 0 "x / ulp x"]
  by (simp add: fl_def)

lemma expo_less:
  assumes "x \<noteq> 0" and "\<bar>x\<bar> < 2 powi k"
  shows "expo x < k"
proof (rule ccontr)
  assume "\<not> expo x < k"
  then have "(2::rat) powi k \<le> 2 powi expo x"
    by (intro power_int_increasing) auto
  with expo_bounds(1) [OF assms(1)] assms(2) show False
    by linarith
qed

lemma expo_ge:
  assumes "x \<noteq> 0" and "2 powi k \<le> \<bar>x\<bar>"
  shows "k \<le> expo x"
proof (rule ccontr)
  assume "\<not> k \<le> expo x"
  then have "(2::rat) powi (expo x + 1) \<le> 2 powi k"
    by (intro power_int_increasing) auto
  with expo_bounds(2) [OF assms(1)] assms(2) show False
    by linarith
qed

lemma ulp_le:
  assumes "x \<noteq> 0" and "\<bar>x\<bar> < 2 powi k" and "- 1021 \<le> k"
  shows "ulp x \<le> 2 powi (k - 53)"
  using expo_less [OF assms(1,2)] assms(3)
  unfolding ulp_def by (intro power_int_increasing) auto

lemma fl_error_bound:
  assumes "\<bar>x\<bar> < 2 powi k" and "- 1021 \<le> k"
  shows "\<bar>fl x - x\<bar> \<le> 2 powi (k - 54)"
proof (cases "x = 0")
  case True
  then show ?thesis
    by (simp add: fl_0)
next
  case False
  have "\<bar>fl x - x\<bar> \<le> ulp x / 2"
    by (rule fl_error)
  also have "\<dots> \<le> 2 powi (k - 53) / 2"
    using ulp_le [OF False assms] by simp
  also have "\<dots> = 2 powi (k - 54)"
    using power_int_add [of "2::rat" "k - 54" 1] by simp
  finally show ?thesis .
qed

lemma fl_of_int:
  assumes "\<bar>n\<bar> < 2 ^ 53"
  shows "fl (of_int n) = of_int n"
proof (cases "n = 0")
  case True
  then show ?thesis
    by (simp add: fl_0)
next
  case False
  let ?x = "of_int n :: rat"
  have nz: "?x \<noteq> 0"
    using False by simp
  have "(2::rat) powi 0 \<le> \<bar>?x\<bar>"
    using False by (simp flip: of_int_abs)
  then have e0: "0 \<le> expo ?x"
    by (rule expo_ge [OF nz])
  have "\<bar>?x\<bar> < of_int (2 ^ 53)"
    using assms unfolding of_int_abs [symmetric] of_int_less_iff .
  then have "\<bar>?x\<bar> < 2 powi 53"
    by simp
  then have e1: "expo ?x < 53"
    by (rule expo_less [OF nz])
  define k where "k = nat (52 - expo ?x)"
  have u: "ulp ?x = 1 / 2 ^ k"
  proof -
    have "ulp ?x = 2 powi (- int k)"
      using e0 e1 by (simp add: ulp_def k_def max_def)
    then show ?thesis
      by (simp add: power_int_minus_divide)
  qed
  have "?x / ulp ?x = of_int (n * 2 ^ k)"
    by (simp add: u)
  then have "round_half_even (?x / ulp ?x) = n * 2 ^ k"
    by (simp only: round_half_even_of_int)
  then show ?thesis
    using nz by (simp add: fl_def u)
qed

lemma two_powi_add: "(2::rat) powi (m + n) = 2 powi m * 2 powi n"
  by (rule power_int_add) simp

lemma two_powi_split: "(2::rat) powi (E + 1) = of_int (2 ^ 53) * 2 powi (E - 52)"
proof -
  have eq: "E + 1 = 53 + (E - 52)"
    by simp
  show ?thesis
    by (subst eq, subst two_powi_add) simp
qed

lemma two_powi_split': "(2::rat) powi E = of_int (2 ^ 52) * 2 powi (E - 52)"
proof -
  have eq: "E = 52 + (E - 52)"
    by simp
  show ?thesis
    by (subst eq, subst two_powi_add) simp
qed

lemma fl_upper:
  assumes "0 < x"
  shows "fl x \<le> 2 powi (max (expo x) (- 1022) + 1)"
proof -
  define E where "E = max (expo x) (- 1022)"
  have u: "ulp x = 2 powi (E - 52)"
    by (simp add: ulp_def E_def)
  have nz: "x \<noteq> 0"
    using assms by simp
  have "x < 2 powi (expo x + 1)"
    using expo_bounds(2) [OF nz] assms by simp
  also have "\<dots> \<le> 2 powi (E + 1)"
    by (intro power_int_increasing) (auto simp: E_def)
  also have "\<dots> = of_int (2 ^ 53) * ulp x"
    unfolding u by (rule two_powi_split)
  finally have "x / ulp x \<le> of_int (2 ^ 53)"
    using ulp_pos [of x] by (simp add: pos_divide_le_eq)
  then have "round_half_even (x / ulp x) \<le> 2 ^ 53"
    by (rule round_half_even_le)
  then have "(of_int (round_half_even (x / ulp x)) :: rat) \<le> of_int (2 ^ 53)"
    by (simp only: of_int_le_iff)
  then have "fl x \<le> of_int (2 ^ 53) * ulp x"
    using nz ulp_pos [of x] by (simp add: fl_def)
  also have "\<dots> = 2 powi (E + 1)"
    unfolding u by (rule two_powi_split [symmetric])
  finally show ?thesis
    by (simp add: E_def)
qed

lemma fl_lower:
  assumes "0 < x" and "- 1022 \<le> expo x"
  shows "2 powi expo x \<le> fl x"
proof -
  have u: "ulp x = 2 powi (expo x - 52)"
    using assms(2) by (simp add: ulp_def max_def)
  have nz: "x \<noteq> 0"
    using assms by simp
  have p: "2 powi expo x = of_int (2 ^ 52) * ulp x"
    unfolding u by (rule two_powi_split')
  have "2 powi expo x \<le> x"
    using expo_bounds(1) [OF nz] assms(1) by simp
  then have "of_int (2 ^ 52) * ulp x \<le> x"
    by (simp only: p)
  then have "of_int (2 ^ 52) \<le> x / ulp x"
    using ulp_pos [of x] by (simp add: pos_le_divide_eq)
  then have "2 ^ 52 \<le> round_half_even (x / ulp x)"
    by (rule round_half_even_ge)
  then have "(of_int (2 ^ 52) :: rat) \<le> of_int (round_half_even (x / ulp x))"
    by (simp only: of_int_le_iff)
  then have "of_int (2 ^ 52) * ulp x \<le> fl x"
    using nz ulp_pos [of x] by (simp add: fl_def)
  then show ?thesis
    by (simp only: p)
qed

lemma fl_mono_pos:
  assumes "0 < x" and "x \<le> y"
  shows "fl x \<le> fl y"
proof -
  have nz: "x \<noteq> 0" "y \<noteq> 0" and ypos: "0 < y"
    using assms by auto
  have "2 powi expo x \<le> \<bar>y\<bar>"
    using expo_bounds(1) [OF nz(1)] assms by simp
  then have ee: "expo x \<le> expo y"
    by (rule expo_ge [OF nz(2)])
  show ?thesis
  proof (cases "max (expo x) (- 1022) = max (expo y) (- 1022)")
    case True
    then have u: "ulp x = ulp y"
      by (simp add: ulp_def)
    have "x / ulp y \<le> y / ulp y"
      using assms(2) ulp_pos [of y] by (simp add: divide_right_mono)
    then have "round_half_even (x / ulp y) \<le> round_half_even (y / ulp y)"
      by (rule round_half_even_mono)
    then have "(of_int (round_half_even (x / ulp y)) :: rat) \<le> of_int (round_half_even (y / ulp y))"
      by (simp only: of_int_le_iff)
    then show ?thesis
      using nz ulp_pos [of y] by (simp add: fl_def u)
  next
    case False
    with ee have lt: "max (expo x) (- 1022) < expo y" and y: "- 1022 \<le> expo y"
      by (auto simp: max_def split: if_splits)
    have "fl x \<le> 2 powi (max (expo x) (- 1022) + 1)"
      by (rule fl_upper [OF assms(1)])
    also have "\<dots> \<le> 2 powi expo y"
      using lt by (intro power_int_increasing) auto
    also have "\<dots> \<le> fl y"
      by (rule fl_lower [OF ypos y])
    finally show ?thesis .
  qed
qed

lemma fl_mono:
  assumes "x \<le> y"
  shows "fl x \<le> fl y"
proof -
  consider "0 < x" | "x \<le> 0" "0 \<le> y" | "y < 0"
    using assms by linarith
  then show ?thesis
  proof cases
    case 1
    then show ?thesis
      using assms by (rule fl_mono_pos)
  next
    case 2
    then have "fl x \<le> 0" "0 \<le> fl y"
      using fl_nonneg [of "- x"] fl_nonneg [of y] by (simp_all add: fl_minus)
    then show ?thesis
      by linarith
  next
    case 3
    then have "fl (- y) \<le> fl (- x)"
      using assms by (intro fl_mono_pos) auto
    then show ?thesis
      by (simp add: fl_minus)
  qed
qed

lemma round_half_even_numeral: "round_half_even (numeral k) = numeral k"
  using round_half_even_of_int [of "numeral k"] by simp

lemma fl_numeral: "(numeral k :: int) < 2 ^ 53 \<Longrightarrow> fl (numeral k) = numeral k"
  using fl_of_int [of "numeral k"] by simp

section \<open>Evaluating the engine on the examples\<close>

lemmas example_defs =
  wind_unit_def gas_unit_def prices_def store1_def request1_def store2_def request2_def
  store3_def request3_def store4_def request4_def store5_def request5_def

lemmas engine_defs =
  get_production_plan_def get_sorted_powerplants_with_pmax_and_cost_def
  calculate_pmax_def calculate_cost_per_MWH_def

section \<open>Unknown unit types\<close>

text \<open>
  C3 (the code departs from the claim). The claim has both derivations fail with the
  invalid-type error on an unknown type. On a unit of type \<^verbatim>\<open>solarfired\<close> the cost
  derivation raises \<^verbatim>\<open>InvalidPlantTypeProvided\<close>, but \<^verbatim>\<open>calculate_pmax\<close>, which has
  no \<^verbatim>\<open>else\<close> branch, reaches its \<^verbatim>\<open>return\<close> with the local unbound and raises
  \<^verbatim>\<open>UnboundLocalError\<close>.
\<close>

theorem calculate_pmax_unknown_type:
  "calculate_cost_per_MWH (prices 60) (store5 2) = Inl InvalidPlantTypeProvided
   \<and> calculate_pmax (prices 60) (store5 2) = Inl UnboundLocalError"
  by (simp add: example_defs engine_defs)

section \<open>Failures other than the two declared exceptions\<close>

text \<open>
  C10 (the code departs from the claim). The claim has no failure reachable other than
  the two declared exceptions. A gas plant with efficiency 0 makes the cost derivation
  divide by zero, and a wind park without \<^verbatim>\<open>pmax\<close> makes the capacity derivation
  multiply \<^verbatim>\<open>None\<close>: the request ends in \<^verbatim>\<open>ZeroDivisionError\<close> and in
  \<^verbatim>\<open>TypeError\<close>.
\<close>

theorem get_production_plan_undeclared_failures:
  "fst (get_production_plan (request5 0) store5) = Inl ZeroDivisionError
   \<and> fst (get_production_plan (request5 1) store5) = Inl TypeError"
  by (simp add: example_defs engine_defs)

section \<open>A second call on the same calculator\<close>

text \<open>
  C8 (the code departs from the claim). The claim has a second call of
  \<^verbatim>\<open>get_production_plan\<close> on the same calculator give the output of the first. The first
  call on \<open>request1\<close> overwrites the wind park's \<^verbatim>\<open>pmax\<close> 200 with its capacity 120.0
  and returns a plan; the second call scales 120.0 again, to 72.0, and ends in
  \<^verbatim>\<open>ManualInterventionNeeded\<close>.
\<close>

theorem get_production_plan_second_call:
  "fst (get_production_plan request1 store1) =
     Inr [\<lparr>name = ''wind'', p = 120\<rparr>, \<lparr>name = ''gasA'', p = 360\<rparr>, \<lparr>name = ''gasB'', p = 0\<rparr>]
   \<and> fst (get_production_plan request1 (snd (get_production_plan request1 store1))) =
     Inl ManualInterventionNeeded"
  by (simp add: example_defs engine_defs fl_numeral fl_0 round_half_even_numeral cost_key_def Let_def)

section \<open>The residue of an exact fill\<close>

lemma fl_7_10: "fl (7 / 10) = 3152519739159347 / 4503599627370496"
  by code_simp

lemma round_7_10: "round_half_even (15762598695796735 / 2251799813685248) = 7"
  by code_simp

lemma fl_1: "fl 1 = 1"
  using fl_of_int [of 1] by simp

lemma fl_1_minus_7_10:
  "fl (1351079888211149 / 4503599627370496) = 1351079888211149 / 4503599627370496"
  by code_simp

lemma round_3_10: "round_half_even (6755399441055745 / 2251799813685248) = 3"
  by code_simp

lemma fl_3_10: "fl (3 / 10) = 5404319552844595 / 18014398509481984"
  by code_simp

lemma fl_residue: "fl (1 / 18014398509481984) = 1 / 18014398509481984"
  by code_simp

lemmas residue_facts =
  fl_7_10 round_7_10 fl_1 fl_1_minus_7_10 round_3_10 fl_3_10 fl_residue

text \<open>
  C9 (the code departs from the claim). The claim has the remaining load become 0 or a
  negative epsilon after a unit takes exactly the remaining load, never a positive residue,
  and every later unit get 0. On \<open>request4\<close> (load 1) the wind park takes 0.7 and leaves
  \<^verbatim>\<open>1 - 0.7 = 0.30000000000000004\<close>; the first gas plant, with minimum 0 and capacity 10,
  takes that rounded, 0.3, and leaves \<open>2 powi - 54\<close>, which is positive; the second gas
  plant, with minimum 5, then raises \<^verbatim>\<open>ManualInterventionNeeded\<close>.
\<close>

theorem exact_fill_positive_residue:
  "allocate (snd (get_sorted_powerplants_with_pmax_and_cost request4 store4)) [0, 1]
       (PyInt 1) None [] =
     Inr (PyFloat (1 / 18014398509481984),
          [\<lparr>name = ''wind'', p = 3152519739159347 / 4503599627370496\<rparr>,
           \<lparr>name = ''gasA'', p = 5404319552844595 / 18014398509481984\<rparr>])
   \<and> fst (get_production_plan request4 store4) = Inl ManualInterventionNeeded"
  by (simp add: example_defs engine_defs fl_numeral residue_facts cost_key_def Let_def)

section \<open>Derived cost and capacity\<close>

lemma fl_3_4: "fl (3 / 4) = 3 / 4"
  by code_simp

text \<open>
  C2. The derived marginal cost is the gas price divided by the efficiency for a
  \<^verbatim>\<open>gasfired\<close> unit, the kerosine price divided by the efficiency for a \<^verbatim>\<open>turbojet\<close>
  unit (a float division, for an efficiency other than 0) and exactly the integer 0 for a
  \<^verbatim>\<open>windturbine\<close>; the derived capacity of a wind unit with nameplate maximum \<open>mx\<close> is the
  float quotient of \<open>mx\<close> times the wind percentage by 100, not rounded to any number of
  decimals, and that of the two fuel-burning kinds is the \<^verbatim>\<open>pmax\<close> field as it is.
\<close>

theorem derived_cost_and_capacity:
  "(type plant = ''gasfired'' \<longrightarrow> efficiency plant \<noteq> 0 \<longrightarrow>
      calculate_cost_per_MWH fs plant = Inr (PyFloat (fl (gas fs / efficiency plant))))
   \<and> (type plant = ''turbojet'' \<longrightarrow> efficiency plant \<noteq> 0 \<longrightarrow>
      calculate_cost_per_MWH fs plant = Inr (PyFloat (fl (kerosine fs / efficiency plant))))
   \<and> (type plant = ''windturbine'' \<longrightarrow> calculate_cost_per_MWH fs plant = Inr (PyInt 0))
   \<and> (type plant = ''windturbine'' \<longrightarrow> pmax plant = Some (PyInt mx) \<longrightarrow>
      calculate_pmax fs plant = Inr (Some (PyFloat (fl (of_int (mx * wind fs) / 100)))))
   \<and> (type plant = ''gasfired'' \<or> type plant = ''turbojet'' \<longrightarrow>
      calculate_pmax fs plant = Inr (pmax plant))"
  by (auto simp: calculate_cost_per_MWH_def calculate_pmax_def)

theorem derived_cost_and_capacity_witness:
  "type (gas_unit ''g'' (1 / 2) 0 100) = ''gasfired'' \<and> efficiency (gas_unit ''g'' (1 / 2) 0 100) \<noteq> 0
   \<and> calculate_cost_per_MWH (prices 25) (gas_unit ''g'' (1 / 2) 0 100) = Inr (PyFloat 20)
   \<and> calculate_pmax (prices 25) (gas_unit ''g'' (1 / 2) 0 100) = Inr (Some (PyInt 100))
   \<and> type ((gas_unit ''t'' (1 / 2) 0 100)\<lparr>type := ''turbojet''\<rparr>) = ''turbojet''
   \<and> calculate_cost_per_MWH (prices 25) ((gas_unit ''t'' (1 / 2) 0 100)\<lparr>type := ''turbojet''\<rparr>) =
       Inr (PyFloat 100)
   \<and> type (wind_unit ''w'' 3) = ''windturbine'' \<and> pmax (wind_unit ''w'' 3) = Some (PyInt 3)
   \<and> calculate_cost_per_MWH (prices 25) (wind_unit ''w'' 3) = Inr (PyInt 0)
   \<and> calculate_pmax (prices 25) (wind_unit ''w'' 3) = Inr (Some (PyFloat (3 / 4)))"
  using derived_cost_and_capacity [of "gas_unit ''g'' (1 / 2) 0 100" "prices 25"]
    derived_cost_and_capacity [of "(gas_unit ''t'' (1 / 2) 0 100)\<lparr>type := ''turbojet''\<rparr>" "prices 25"]
    derived_cost_and_capacity [of "wind_unit ''w'' 3" "prices 25" 3]
  by (simp add: example_defs fl_numeral fl_3_4)

section \<open>The derivation loop and the store\<close>

lemma calculate_cost_per_MWH_cong:
  "type pa = type pb \<Longrightarrow> efficiency pa = efficiency pb
    \<Longrightarrow> calculate_cost_per_MWH fs pa = calculate_cost_per_MWH fs pb"
  by (simp add: calculate_cost_per_MWH_def)

lemma calculate_pmax_cong:
  "type pa = type pb \<Longrightarrow> pmax pa = pmax pb \<Longrightarrow> calculate_pmax fs pa = calculate_pmax fs pb"
  by (simp add: calculate_pmax_def)

lemma calculate_pmax_fuel:
  "type plant = ''gasfired'' \<or> type plant = ''turbojet'' \<Longrightarrow> calculate_pmax fs plant = Inr (pmax plant)"
  by (auto simp: calculate_pmax_def)

text \<open>What one round of the loop does to the store.\<close>

lemma derive_loop_Cons:
  "derive_loop fs (a # as) h =
     (case calculate_cost_per_MWH fs (h a) of
        Inl e \<Rightarrow> (Some e, h)
      | Inr c \<Rightarrow>
          (case calculate_pmax fs (h a) of
             Inl e \<Rightarrow> (Some e, h(a := (h a)\<lparr>cost_per_MWH := Some c\<rparr>))
           | Inr m \<Rightarrow> derive_loop fs as (h(a := (h a)\<lparr>cost_per_MWH := Some c, pmax := m\<rparr>))))"
proof -
  have "calculate_pmax fs ((h a)\<lparr>cost_per_MWH := c'\<rparr>) = calculate_pmax fs (h a)" for c'
    by (rule calculate_pmax_cong) simp_all
  then show ?thesis
    by (simp add: Let_def split: sum.splits)
qed

lemma derive_loop_frame_all:
  "derive_loop fs as h = (r, h') \<Longrightarrow>
     Powerplant.name (h' b) = Powerplant.name (h b) \<and> type (h' b) = type (h b)
     \<and> efficiency (h' b) = efficiency (h b) \<and> pmin (h' b) = pmin (h b)
     \<and> (b \<notin> set as \<longrightarrow> h' b = h b)"
proof (induction as arbitrary: h)
  case Nil
  then show ?case
    by simp
next
  case (Cons a as)
  show ?case
  proof (cases "calculate_cost_per_MWH fs (h a)")
    case (Inl e)
    with Cons.prems show ?thesis
      by (simp add: derive_loop_Cons del: derive_loop.simps)
  next
    case c: (Inr c)
    show ?thesis
    proof (cases "calculate_pmax fs (h a)")
      case (Inl e)
      with c Cons.prems show ?thesis
        by (auto simp: derive_loop_Cons simp del: derive_loop.simps)
    next
      case (Inr m)
      with c Cons.prems
      have "derive_loop fs as (h(a := (h a)\<lparr>cost_per_MWH := Some c, pmax := m\<rparr>)) = (r, h')"
        by (simp add: derive_loop_Cons del: derive_loop.simps)
      from Cons.IH [OF this] show ?thesis
        by (auto split: if_splits)
    qed
  qed
qed

lemmas derive_loop_frame = derive_loop_frame_all [THEN conjunct1]
  derive_loop_frame_all [THEN conjunct2, THEN conjunct1]
  derive_loop_frame_all [THEN conjunct2, THEN conjunct2, THEN conjunct1]
  derive_loop_frame_all [THEN conjunct2, THEN conjunct2, THEN conjunct2, THEN conjunct1]

lemma derive_loop_outside: "derive_loop fs as h = (r, h') \<Longrightarrow> b \<notin> set as \<Longrightarrow> h' b = h b"
  using derive_loop_frame_all [of fs as h r h' b] by simp

text \<open>After a run without exception every object listed carries its cost.\<close>

lemma derive_loop_cost:
  "derive_loop fs as h = (None, h') \<Longrightarrow> a \<in> set as \<Longrightarrow>
     \<exists>c. calculate_cost_per_MWH fs (h a) = Inr c \<and> cost_per_MWH (h' a) = Some c"
proof (induction as arbitrary: h)
  case Nil
  then show ?case
    by simp
next
  case (Cons b as)
  from Cons.prems(1) obtain c m where c: "calculate_cost_per_MWH fs (h b) = Inr c"
    and m: "calculate_pmax fs (h b) = Inr m"
    and rest: "derive_loop fs as (h(b := (h b)\<lparr>cost_per_MWH := Some c, pmax := m\<rparr>)) = (None, h')"
    by (auto simp: derive_loop_Cons simp del: derive_loop.simps split: sum.splits)
  let ?h = "h(b := (h b)\<lparr>cost_per_MWH := Some c, pmax := m\<rparr>)"
  have same: "calculate_cost_per_MWH fs (?h x) = calculate_cost_per_MWH fs (h x)" for x
    by (rule calculate_cost_per_MWH_cong) simp_all
  show ?case
  proof (cases "a \<in> set as")
    case True
    from Cons.IH [OF rest True] show ?thesis
      by (simp only: same)
  next
    case False
    with Cons.prems(2) have ab: "a = b"
      by simp
    from derive_loop_outside [OF rest False] have "h' a = ?h a" .
    with c ab show ?thesis
      by simp
  qed
qed

lemma derive_loop_cost_key:
  "derive_loop fs as h = (None, h') \<Longrightarrow> a \<in> set as \<Longrightarrow> cost_key h' a = unit_cost fs (h a)"
  using derive_loop_cost [of fs as h h' a] by (auto simp: cost_key_def unit_cost_def)

lemma calculate_pmax_Some:
  assumes "calculate_pmax fs plant = Inr m" and "pmax plant = Some c"
  shows "\<exists>c'. m = Some c'"
proof (cases "type plant = ''windturbine''")
  case True
  with assms show ?thesis
    by (auto simp: calculate_pmax_def split: sum.splits)
next
  case False
  with assms(1) have "m = pmax plant"
    by (auto simp: calculate_pmax_def split: if_splits)
  with assms(2) show ?thesis
    by simp
qed

lemma calculate_pmax_present:
  "calculate_pmax fs plant = Inr m \<Longrightarrow> pmax plant \<noteq> None \<Longrightarrow> m \<noteq> None"
  using calculate_pmax_Some [of fs plant m] by (cases "pmax plant") auto

lemma derive_loop_pmax_present:
  "derive_loop fs as h = (r, h') \<Longrightarrow> pmax (h b) \<noteq> None \<Longrightarrow> pmax (h' b) \<noteq> None"
proof (induction as arbitrary: h)
  case Nil
  then show ?case
    by simp
next
  case (Cons a as)
  show ?case
  proof (cases "calculate_cost_per_MWH fs (h a)")
    case (Inl e)
    with Cons.prems show ?thesis
      by (simp add: derive_loop_Cons del: derive_loop.simps)
  next
    case c: (Inr c)
    show ?thesis
    proof (cases "calculate_pmax fs (h a)")
      case (Inl e)
      with c Cons.prems show ?thesis
        by (auto simp: derive_loop_Cons simp del: derive_loop.simps)
    next
      case (Inr m)
      with c Cons.prems
      have rest: "derive_loop fs as (h(a := (h a)\<lparr>cost_per_MWH := Some c, pmax := m\<rparr>)) = (r, h')"
        by (simp add: derive_loop_Cons del: derive_loop.simps)
      show ?thesis
      proof (cases "b = a")
        case True
        with Inr Cons.prems(2) have "m \<noteq> None"
          by (auto dest: calculate_pmax_present)
        with True show ?thesis
          by (intro Cons.IH [OF rest]) simp
      next
        case False
        with Cons.prems(2) show ?thesis
          by (intro Cons.IH [OF rest]) simp
      qed
    qed
  qed
qed

lemma derive_loop_fuel_pmax:
  "derive_loop fs as h = (r, h') \<Longrightarrow> type (h b) = ''gasfired'' \<or> type (h b) = ''turbojet''
    \<Longrightarrow> pmax (h' b) = pmax (h b)"
proof (induction as arbitrary: h)
  case Nil
  then show ?case
    by simp
next
  case (Cons a as)
  show ?case
  proof (cases "calculate_cost_per_MWH fs (h a)")
    case (Inl e)
    with Cons.prems show ?thesis
      by (simp add: derive_loop_Cons del: derive_loop.simps)
  next
    case c: (Inr c)
    show ?thesis
    proof (cases "calculate_pmax fs (h a)")
      case (Inl e)
      with c Cons.prems show ?thesis
        by (auto simp: derive_loop_Cons simp del: derive_loop.simps)
    next
      case (Inr m)
      with c Cons.prems
      have rest: "derive_loop fs as (h(a := (h a)\<lparr>cost_per_MWH := Some c, pmax := m\<rparr>)) = (r, h')"
        by (simp add: derive_loop_Cons del: derive_loop.simps)
      let ?h = "h(a := (h a)\<lparr>cost_per_MWH := Some c, pmax := m\<rparr>)"
      have "a = b \<Longrightarrow> m = pmax (h b)"
        using Inr calculate_pmax_fuel [OF Cons.prems(2), of fs] by simp
      then have same: "pmax (?h b) = pmax (h b)" "type (?h b) = type (h b)"
        by auto
      from Cons.IH [OF rest] Cons.prems(2) have "pmax (h' b) = pmax (?h b)"
        unfolding same(2) by blast
      then show ?thesis
        by (simp only: same(1))
    qed
  qed
qed

lemma get_production_plan_store:
  "snd (get_production_plan self h) = snd (derive_loop (fuels self) (powerplants self) h)"
  by (simp add: get_production_plan_def get_sorted_powerplants_with_pmax_and_cost_def Let_def
      split: prod.splits option.splits sum.splits)

lemma get_sorted_Inr:
  "get_sorted_powerplants_with_pmax_and_cost self h = (Inr ranked, h') \<longleftrightarrow>
     derive_loop (fuels self) (powerplants self) h = (None, h')
     \<and> ranked = sort_key (cost_key h') (powerplants self)"
  by (auto simp: get_sorted_powerplants_with_pmax_and_cost_def Let_def
      split: prod.splits option.splits)

lemma get_production_plan_Inr:
  "get_production_plan self h = (Inr plan, h') \<longleftrightarrow>
     (\<exists>ranked r. get_sorted_powerplants_with_pmax_and_cost self h = (Inr ranked, h')
        \<and> allocate h' ranked (PyInt (load self)) None [] = Inr (r, plan))"
  by (auto simp: get_production_plan_def split: prod.splits sum.splits)

lemma allocate_names:
  "allocate h as r pw acc = Inr (r', plan) \<Longrightarrow>
     \<exists>items. plan = acc @ items
       \<and> map ResultItem.name items = map (\<lambda>a. Powerplant.name (h a)) as"
proof (induction as arbitrary: r pw acc)
  case Nil
  then show ?case
    by simp
next
  case (Cons a as)
  from Cons.prems obtain r1 pw1 q where
    "allocate h as r1 pw1 (acc @ [\<lparr>name = Powerplant.name (h a), p = q\<rparr>]) = Inr (r', plan)"
    by (auto simp: Let_def split: if_splits option.splits)
  from Cons.IH [OF this] show ?case
    by auto
qed

section \<open>A request with a unit of unknown type\<close>

lemma calculate_cost_per_MWH_known:
  assumes "type plant = ''gasfired'' \<or> type plant = ''turbojet'' \<or> type plant = ''windturbine''"
    and "efficiency plant \<noteq> 0"
  shows "\<exists>c. calculate_cost_per_MWH fs plant = Inr c"
  using assms by (auto simp: calculate_cost_per_MWH_def)

lemma calculate_pmax_known:
  assumes "type plant = ''gasfired'' \<or> type plant = ''turbojet'' \<or> type plant = ''windturbine''"
    and "pmax plant \<noteq> None"
  shows "\<exists>m. calculate_pmax fs plant = Inr m"
proof -
  from assms(2) obtain c where c: "pmax plant = Some c"
    by auto
  have "\<exists>d. py_truediv (py_mul c (PyInt (wind fs))) (PyInt 100) = Inr d"
    by (cases "py_mul c (PyInt (wind fs))") simp_all
  with assms(1) c show ?thesis
    by (auto simp: calculate_pmax_def)
qed

text \<open>
  A unit of unknown type anywhere in a request whose units have an efficiency other than 0
  and carry a \<^verbatim>\<open>pmax\<close> ends the request in \<^verbatim>\<open>InvalidPlantTypeProvided\<close>: the cost
  derivation meets the unit before the capacity derivation does.
\<close>

lemma derive_loop_unknown_type:
  assumes "\<exists>a\<in>set as. type (h a) \<noteq> ''gasfired'' \<and> type (h a) \<noteq> ''turbojet''
      \<and> type (h a) \<noteq> ''windturbine''"
    and "\<forall>a\<in>set as. efficiency (h a) \<noteq> 0 \<and> pmax (h a) \<noteq> None"
  shows "fst (derive_loop fs as h) = Some InvalidPlantTypeProvided"
  using assms
proof (induction as arbitrary: h)
  case Nil
  then show ?case
    by simp
next
  case (Cons a as)
  show ?case
  proof (cases "type (h a) = ''gasfired'' \<or> type (h a) = ''turbojet'' \<or> type (h a) = ''windturbine''")
    case False
    then have "calculate_cost_per_MWH fs (h a) = Inl InvalidPlantTypeProvided"
      by (simp add: calculate_cost_per_MWH_def)
    then show ?thesis
      by (simp add: derive_loop_Cons del: derive_loop.simps)
  next
    case True
    from Cons.prems(2) have ok: "efficiency (h a) \<noteq> 0" "pmax (h a) \<noteq> None"
      by simp_all
    from calculate_cost_per_MWH_known [OF True ok(1)] obtain c
      where c: "calculate_cost_per_MWH fs (h a) = Inr c"
      by blast
    from calculate_pmax_known [OF True ok(2)] obtain m
      where m: "calculate_pmax fs (h a) = Inr m"
      by blast
    let ?h = "h(a := (h a)\<lparr>cost_per_MWH := Some c, pmax := m\<rparr>)"
    have step: "derive_loop fs (a # as) h = derive_loop fs as ?h"
      by (simp add: derive_loop_Cons c m del: derive_loop.simps)
    have m': "m \<noteq> None"
      by (rule calculate_pmax_present [OF m ok(2)])
    have "\<exists>b\<in>set as. type (?h b) \<noteq> ''gasfired'' \<and> type (?h b) \<noteq> ''turbojet''
        \<and> type (?h b) \<noteq> ''windturbine''"
      using Cons.prems(1) True by auto
    moreover have "\<forall>b\<in>set as. efficiency (?h b) \<noteq> 0 \<and> pmax (?h b) \<noteq> None"
      using Cons.prems(2) m' by auto
    ultimately have "fst (derive_loop fs as ?h) = Some InvalidPlantTypeProvided"
      by (rule Cons.IH)
    then show ?thesis
      by (simp only: step)
  qed
qed

lemma unknown_type_aborts_request:
  assumes "\<exists>a\<in>set (powerplants self). type (h a) \<noteq> ''gasfired'' \<and> type (h a) \<noteq> ''turbojet''
      \<and> type (h a) \<noteq> ''windturbine''"
    and "\<forall>a\<in>set (powerplants self). efficiency (h a) \<noteq> 0 \<and> pmax (h a) \<noteq> None"
  shows "fst (get_production_plan self h) = Inl InvalidPlantTypeProvided"
  using derive_loop_unknown_type [OF assms, of "fuels self"]
  by (auto simp: get_production_plan_def get_sorted_powerplants_with_pmax_and_cost_def Let_def
      split: prod.splits option.splits)

section \<open>The allocation loop is the greedy pass\<close>

lemma allocate_refines:
  assumes "\<forall>a\<in>set as. pmax (h a) \<noteq> None"
  shows "(case allocate h as r pw acc of Inl e \<Rightarrow> Inl e | Inr (r', plan) \<Rightarrow> Inr plan) =
         (case allocate_spec h as r of Inl e \<Rightarrow> Inl e | Inr items \<Rightarrow> Inr (acc @ items))"
  using assms
proof (induction as arbitrary: r pw acc)
  case Nil
  then show ?case
    by simp
next
  case (Cons a as)
  from Cons.prems obtain m where m: "pmax (h a) = Some m"
    by auto
  have IH: "(case allocate h as r1 pw1 acc1 of Inl e \<Rightarrow> Inl e | Inr (r', plan) \<Rightarrow> Inr plan) =
         (case allocate_spec h as r1 of Inl e \<Rightarrow> Inl e | Inr items \<Rightarrow> Inr (acc1 @ items))"
    for r1 pw1 acc1
    using Cons.IH [of r1 pw1 acc1] Cons.prems by simp
  consider "val r \<le> 0" | "0 < val r" "val r < of_int (pmin (h a))"
    | "0 < val r" "of_int (pmin (h a)) \<le> val r" "val m \<le> val r"
    | "0 < val r" "of_int (pmin (h a)) \<le> val r" "val r < val m"
    by linarith
  then show ?case
  proof cases
    case 1
    then show ?thesis
      by (simp add: IH assign_def split: sum.splits)
  next
    case 2
    then show ?thesis
      by simp
  next
    case 3
    then show ?thesis
      by (simp add: m IH assign_def effective_capacity_def round1_def Let_def split: sum.splits)
  next
    case 4
    then show ?thesis
      by (simp add: m IH assign_def effective_capacity_def round1_def Let_def split: sum.splits)
  qed
qed

lemma get_sorted_store:
  "snd (get_sorted_powerplants_with_pmax_and_cost self h) =
     snd (derive_loop (fuels self) (powerplants self) h)"
  by (simp add: get_sorted_powerplants_with_pmax_and_cost_def Let_def
      split: prod.splits option.splits)

lemma request1_sorted:
  "fst (get_sorted_powerplants_with_pmax_and_cost request1 store1) = Inr [0, 1, 2]"
  by (simp add: example_defs engine_defs fl_numeral cost_key_def Let_def)

lemma request1_plan:
  "fst (get_production_plan request1 store1) =
     Inr [\<lparr>name = ''wind'', p = 120\<rparr>, \<lparr>name = ''gasA'', p = 360\<rparr>, \<lparr>name = ''gasB'', p = 0\<rparr>]"
  by (simp add: example_defs engine_defs fl_numeral fl_0 round_half_even_numeral cost_key_def Let_def)

text \<open>
  C1. Once the units are ranked, \<^verbatim>\<open>get_production_plan\<close> is the greedy pass of the
  specification, started on the requested load, for every request whose units all carry a
  \<^verbatim>\<open>pmax\<close>: a unit reached with remaining load at most 0 is listed with 0; a remaining load
  below the unit's minimum ends the whole computation in \<^verbatim>\<open>ManualInterventionNeeded\<close>
  with no plan; a remaining load of at least the unit's capacity gives the unit its capacity
  rounded to one decimal, which is subtracted; otherwise the unit gets the remaining load
  rounded to one decimal, which is subtracted.
\<close>

theorem get_production_plan_greedy_pass:
  assumes "get_sorted_powerplants_with_pmax_and_cost self h = (Inr ranked, h')"
    and "\<forall>a\<in>set (powerplants self). pmax (h a) \<noteq> None"
  shows "get_production_plan self h = (allocate_spec h' ranked (PyInt (load self)), h')"
proof -
  from assms(1) have d: "derive_loop (fuels self) (powerplants self) h = (None, h')"
    and r: "ranked = sort_key (cost_key h') (powerplants self)"
    by (simp_all add: get_sorted_Inr)
  have "\<forall>a\<in>set ranked. pmax (h' a) \<noteq> None"
    using assms(2) derive_loop_pmax_present [OF d] by (simp add: r)
  from allocate_refines [OF this, of "PyInt (load self)" None "[]"] show ?thesis
    by (auto simp: get_production_plan_def assms(1) split: sum.splits)
qed

theorem get_production_plan_greedy_pass_witness:
  "get_sorted_powerplants_with_pmax_and_cost request1 store1 =
     (Inr [0, 1, 2], snd (get_sorted_powerplants_with_pmax_and_cost request1 store1))
   \<and> powerplants request1 = [1, 2, 0]
   \<and> pmax (store1 0) = Some (PyInt 200) \<and> pmax (store1 1) = Some (PyInt 400)
   \<and> pmax (store1 2) = Some (PyInt 200)
   \<and> get_production_plan request1 store1 =
     (allocate_spec (snd (get_sorted_powerplants_with_pmax_and_cost request1 store1)) [0, 1, 2]
        (PyInt (load request1)),
      snd (get_sorted_powerplants_with_pmax_and_cost request1 store1))"
proof -
  have s: "get_sorted_powerplants_with_pmax_and_cost request1 store1 =
      (Inr [0, 1, 2], snd (get_sorted_powerplants_with_pmax_and_cost request1 store1))"
    using request1_sorted by (simp add: prod_eq_iff)
  have v: "\<forall>a\<in>set (powerplants request1). pmax (store1 a) \<noteq> None"
    by (simp add: example_defs)
  have u: "powerplants request1 = [1, 2, 0]" "pmax (store1 0) = Some (PyInt 200)"
    "pmax (store1 1) = Some (PyInt 400)" "pmax (store1 2) = Some (PyInt 200)"
    by (simp_all add: example_defs)
  show ?thesis
    by (intro conjI s u get_production_plan_greedy_pass [OF s v])
qed

section \<open>One entry per unit, in merit order\<close>

lemma request1_result:
  "get_production_plan request1 store1 =
     (Inr [\<lparr>name = ''wind'', p = 120\<rparr>, \<lparr>name = ''gasA'', p = 360\<rparr>, \<lparr>name = ''gasB'', p = 0\<rparr>],
      snd (get_production_plan request1 store1))"
  using request1_plan by (simp add: prod_eq_iff)

text \<open>
  C6. Whenever \<^verbatim>\<open>get_production_plan\<close> returns a plan, the plan lists the names of a
  rearrangement of the input units, one entry for each of them; that rearrangement is
  ascending in the derived marginal cost, and units of equal cost keep their input order.
\<close>

theorem plan_in_merit_order:
  assumes "get_production_plan self h = (Inr plan, h')"
  shows "\<exists>ranked. mset ranked = mset (powerplants self)
     \<and> map ResultItem.name plan = map (\<lambda>a. Powerplant.name (h a)) ranked
     \<and> sorted (map (\<lambda>a. unit_cost (fuels self) (h a)) ranked)
     \<and> (\<forall>k. filter (\<lambda>a. unit_cost (fuels self) (h a) = k) ranked =
              filter (\<lambda>a. unit_cost (fuels self) (h a) = k) (powerplants self))"
proof -
  let ?plants = "powerplants self"
  let ?ranked = "sort_key (cost_key h') ?plants"
  from assms obtain r where
    d: "derive_loop (fuels self) ?plants h = (None, h')"
    and al: "allocate h' ?ranked (PyInt (load self)) None [] = Inr (r, plan)"
    by (auto simp: get_production_plan_Inr get_sorted_Inr)
  have key: "cost_key h' a = unit_cost (fuels self) (h a)" if "a \<in> set ?plants" for a
    using derive_loop_cost_key [OF d that] .
  have "map ResultItem.name plan = map (\<lambda>a. Powerplant.name (h' a)) ?ranked"
    using allocate_names [OF al] by auto
  then have names: "map ResultItem.name plan = map (\<lambda>a. Powerplant.name (h a)) ?ranked"
    by (simp add: derive_loop_frame(1) [OF d])
  have "sorted (map (cost_key h') ?ranked)"
    by (rule sorted_sort_key)
  moreover have "map (cost_key h') ?ranked = map (\<lambda>a. unit_cost (fuels self) (h a)) ?ranked"
    by (rule map_cong) (simp_all add: key)
  ultimately have srt: "sorted (map (\<lambda>a. unit_cost (fuels self) (h a)) ?ranked)"
    by simp
  have stable: "filter (\<lambda>a. unit_cost (fuels self) (h a) = k) ?ranked =
      filter (\<lambda>a. unit_cost (fuels self) (h a) = k) ?plants" for k
  proof -
    have "filter (\<lambda>a. unit_cost (fuels self) (h a) = k) ?ranked = filter (\<lambda>a. cost_key h' a = k) ?ranked"
      by (rule filter_cong) (simp_all add: key)
    also have "\<dots> = filter (\<lambda>a. cost_key h' a = k) ?plants"
      by (rule sort_key_stable)
    also have "\<dots> = filter (\<lambda>a. unit_cost (fuels self) (h a) = k) ?plants"
      by (rule filter_cong) (simp_all add: key)
    finally show ?thesis .
  qed
  have "mset ?ranked = mset ?plants"
    by simp
  with names srt stable show ?thesis
    by blast
qed

theorem plan_in_merit_order_witness:
  "fst (get_production_plan request1 store1) =
     Inr [\<lparr>name = ''wind'', p = 120\<rparr>, \<lparr>name = ''gasA'', p = 360\<rparr>, \<lparr>name = ''gasB'', p = 0\<rparr>]
   \<and> (\<exists>ranked. mset ranked = mset (powerplants request1)
     \<and> map ResultItem.name
          [\<lparr>name = ''wind'', p = 120\<rparr>, \<lparr>name = ''gasA'', p = 360\<rparr>, \<lparr>name = ''gasB'', p = 0\<rparr>] =
        map (\<lambda>a. Powerplant.name (store1 a)) ranked
     \<and> sorted (map (\<lambda>a. unit_cost (fuels request1) (store1 a)) ranked)
     \<and> (\<forall>k. filter (\<lambda>a. unit_cost (fuels request1) (store1 a) = k) ranked =
              filter (\<lambda>a. unit_cost (fuels request1) (store1 a) = k) (powerplants request1)))"
  by (intro conjI request1_plan plan_in_merit_order [OF request1_result])

section \<open>What the engine writes into the caller's records\<close>

text \<open>
  C7, as claimed, fails: the claim has the caller's \<^verbatim>\<open>Powerplant\<close> objects unchanged by
  the computation. After \<^verbatim>\<open>get_production_plan\<close> on \<open>request1\<close> the gas plant at address 1
  carries the cost 20.0 where it had \<^verbatim>\<open>None\<close>, and the wind park at address 0 carries 120.0
  in \<^verbatim>\<open>pmax\<close> where it had 200.
\<close>

theorem caller_records_counterexample:
  "cost_per_MWH (store1 1) = None
   \<and> cost_per_MWH (snd (get_production_plan request1 store1) 1) = Some (PyFloat 20)
   \<and> pmax (store1 0) = Some (PyInt 200)
   \<and> pmax (snd (get_production_plan request1 store1) 0) = Some (PyFloat 120)
   \<and> snd (get_production_plan request1 store1) 0 \<noteq> store1 0"
  by (simp add: get_production_plan_store example_defs calculate_pmax_def
      calculate_cost_per_MWH_def fl_numeral Let_def)

text \<open>
  C7, amended. The engine stores the derived marginal cost in the \<^verbatim>\<open>cost_per_MWH\<close> field of
  the caller's objects: after a returned plan every unit of the request carries its cost.
  Whatever the outcome, name, type, efficiency and \<^verbatim>\<open>pmin\<close> of every object, the
  \<^verbatim>\<open>pmax\<close> of every fuel-burning unit and every object outside the request are as before.
\<close>

theorem get_production_plan_frame:
  assumes "get_production_plan self h = (res, h')"
  shows "Powerplant.name (h' a) = Powerplant.name (h a) \<and> type (h' a) = type (h a)
     \<and> efficiency (h' a) = efficiency (h a) \<and> pmin (h' a) = pmin (h a)
     \<and> (type (h a) = ''gasfired'' \<or> type (h a) = ''turbojet'' \<longrightarrow> pmax (h' a) = pmax (h a))
     \<and> (a \<notin> set (powerplants self) \<longrightarrow> h' a = h a)
     \<and> (\<forall>plan. res = Inr plan \<longrightarrow> a \<in> set (powerplants self) \<longrightarrow>
           (\<exists>c. calculate_cost_per_MWH (fuels self) (h a) = Inr c \<and> cost_per_MWH (h' a) = Some c))"
proof -
  obtain r where d: "derive_loop (fuels self) (powerplants self) h = (r, h')"
    using assms get_production_plan_store [of self h]
    by (cases "derive_loop (fuels self) (powerplants self) h") simp
  have "r = None" if "res = Inr plan" for plan
    using assms that d
    by (auto simp: get_production_plan_def get_sorted_powerplants_with_pmax_and_cost_def Let_def
        split: prod.splits option.splits sum.splits)
  then show ?thesis
    using derive_loop_frame_all [OF d, of a] derive_loop_fuel_pmax [OF d, of a]
      derive_loop_cost [of "fuels self" "powerplants self" h h' a] d
    by auto
qed

theorem get_production_plan_frame_witness:
  "Powerplant.name (snd (get_production_plan request1 store1) 1) = ''gasA''
   \<and> type (snd (get_production_plan request1 store1) 1) = ''gasfired''
   \<and> efficiency (snd (get_production_plan request1 store1) 1) = 1 / 2
   \<and> pmin (snd (get_production_plan request1 store1) 1) = 100
   \<and> pmax (snd (get_production_plan request1 store1) 1) = Some (PyInt 400)
   \<and> cost_per_MWH (snd (get_production_plan request1 store1) 1) = Some (PyFloat 20)
   \<and> snd (get_production_plan request1 store1) 7 = store1 7"
proof -
  note f1 = get_production_plan_frame [OF request1_result, of 1]
  note f7 = get_production_plan_frame [OF request1_result, of 7]
  have in1: "1 \<in> set (powerplants request1)" and out7: "7 \<notin> set (powerplants request1)"
    by (simp_all add: request1_def)
  have u: "Powerplant.name (store1 1) = ''gasA''" "type (store1 1) = ''gasfired''"
    "efficiency (store1 1) = 1 / 2" "pmin (store1 1) = 100" "pmax (store1 1) = Some (PyInt 400)"
    "calculate_cost_per_MWH (fuels request1) (store1 1) = Inr (PyFloat 20)"
    by (simp_all add: example_defs calculate_cost_per_MWH_def fl_numeral)
  from f1 in1 u have "cost_per_MWH (snd (get_production_plan request1 store1) 1) = Some (PyFloat 20)"
    by auto
  moreover from f7 out7 have "snd (get_production_plan request1 store1) 7 = store1 7"
    by blast
  moreover from f1 u have "Powerplant.name (snd (get_production_plan request1 store1) 1) = ''gasA''"
    "type (snd (get_production_plan request1 store1) 1) = ''gasfired''"
    "efficiency (snd (get_production_plan request1 store1) 1) = 1 / 2"
    "pmin (snd (get_production_plan request1 store1) 1) = 100"
    "pmax (snd (get_production_plan request1 store1) 1) = Some (PyInt 400)"
    by simp_all
  ultimately show ?thesis
    by blast
qed

section \<open>Bounds on the assigned output\<close>

lemma round1_eq: "round1 x = fl (of_int (round_half_even (val x * 10)) / 10)"
proof (cases x)
  case (PyInt n)
  have "round_half_even (of_int n * 10) = n * 10"
    using round_half_even_of_int [of "n * 10"] by simp
  then show ?thesis
    by (simp add: round1_def PyInt)
next
  case (PyFloat y)
  then show ?thesis
    by (simp add: round1_def)
qed

lemma round1_mono:
  assumes "val x \<le> val y"
  shows "round1 x \<le> round1 y"
proof -
  have "round_half_even (val x * 10) \<le> round_half_even (val y * 10)"
    using assms by (intro round_half_even_mono) simp
  then have "(of_int (round_half_even (val x * 10)) :: rat) / 10 \<le> of_int (round_half_even (val y * 10)) / 10"
    by simp
  then show ?thesis
    unfolding round1_eq by (rule fl_mono)
qed

lemma round1_nonneg:
  assumes "0 \<le> val x"
  shows "0 \<le> round1 x"
proof -
  have "0 \<le> round_half_even (val x * 10)"
    using assms by (intro round_half_even_ge) simp
  then show ?thesis
    unfolding round1_eq by (intro fl_nonneg) simp
qed

lemma allocate_bounds:
  assumes "\<forall>a\<in>set as. \<exists>c. pmax (h a) = Some c \<and> 0 \<le> val c"
    and "allocate h as r pw acc = Inr (r', plan)"
  shows "\<exists>items. plan = acc @ items
     \<and> list_all2 (\<lambda>item a. ResultItem.name item = Powerplant.name (h a) \<and> 0 \<le> p item
          \<and> p item \<le> round1 (effective_capacity (h a))) items as"
  using assms
proof (induction as arbitrary: r pw acc)
  case Nil
  then show ?case
    by simp
next
  case (Cons a as)
  from Cons.prems(1) obtain c where c: "pmax (h a) = Some c" and c0: "0 \<le> val c"
    by auto
  have cap: "effective_capacity (h a) = c"
    by (simp add: effective_capacity_def c)
  have "\<exists>q r1 pw1. allocate h as r1 pw1 (acc @ [\<lparr>name = Powerplant.name (h a), p = q\<rparr>]) = Inr (r', plan)
      \<and> 0 \<le> q \<and> q \<le> round1 c"
  proof (cases "0 < val r")
    case False
    with Cons.prems(2) round1_nonneg [OF c0] show ?thesis
      by auto
  next
    case pos: True
    show ?thesis
    proof (cases "val c \<le> val r")
      case True
      with pos Cons.prems(2) c
      have "allocate h as (py_sub r (PyFloat (round1 c))) (Some (round1 c))
          (acc @ [\<lparr>name = Powerplant.name (h a), p = round1 c\<rparr>]) = Inr (r', plan)"
        by (simp add: Let_def round1_def split: if_splits)
      with round1_nonneg [OF c0] show ?thesis
        by blast
    next
      case False
      with pos Cons.prems(2) c
      have "allocate h as (py_sub r (PyFloat (round1 r))) (Some (round1 r))
          (acc @ [\<lparr>name = Powerplant.name (h a), p = round1 r\<rparr>]) = Inr (r', plan)"
        by (simp add: Let_def round1_def split: if_splits)
      moreover have "0 \<le> round1 r" "round1 r \<le> round1 c"
        using pos False by (auto intro: round1_nonneg round1_mono)
      ultimately show ?thesis
        by blast
    qed
  qed
  then obtain q r1 pw1 where
    rec: "allocate h as r1 pw1 (acc @ [\<lparr>name = Powerplant.name (h a), p = q\<rparr>]) = Inr (r', plan)"
    and q: "0 \<le> q" "q \<le> round1 c"
    by blast
  from Cons.IH [OF _ rec] Cons.prems(1) obtain items where
    "plan = (acc @ [\<lparr>name = Powerplant.name (h a), p = q\<rparr>]) @ items"
    "list_all2 (\<lambda>item a. ResultItem.name item = Powerplant.name (h a) \<and> 0 \<le> p item
          \<and> p item \<le> round1 (effective_capacity (h a))) items as"
    by auto
  with q cap show ?case
    by (intro exI [of _ "\<lparr>name = Powerplant.name (h a), p = q\<rparr> # items"]) simp
qed

text \<open>For units that are distinct objects the stored capacity is the one derived from the input.\<close>

lemma derive_loop_pmax:
  "derive_loop fs as h = (None, h') \<Longrightarrow> distinct as \<Longrightarrow> a \<in> set as
    \<Longrightarrow> calculate_pmax fs (h a) = Inr (pmax (h' a))"
proof (induction as arbitrary: h)
  case Nil
  then show ?case
    by simp
next
  case (Cons b as)
  from Cons.prems(1) obtain c m where m: "calculate_pmax fs (h b) = Inr m"
    and rest: "derive_loop fs as (h(b := (h b)\<lparr>cost_per_MWH := Some c, pmax := m\<rparr>)) = (None, h')"
    by (auto simp: derive_loop_Cons simp del: derive_loop.simps split: sum.splits)
  let ?h = "h(b := (h b)\<lparr>cost_per_MWH := Some c, pmax := m\<rparr>)"
  from Cons.prems(2) have b: "b \<notin> set as" and d: "distinct as"
    by simp_all
  show ?case
  proof (cases "a = b")
    case True
    from derive_loop_outside [OF rest b] have "h' b = ?h b" .
    with m True show ?thesis
      by simp
  next
    case False
    with Cons.prems(3) have "a \<in> set as"
      by simp
    from Cons.IH [OF rest d this] False show ?thesis
      by simp
  qed
qed

lemma calculate_pmax_nonneg:
  assumes "calculate_pmax fs plant = Inr m" and "pmax plant = Some (PyInt mx)" and "0 \<le> mx"
    and "0 \<le> wind fs"
  shows "\<exists>c. m = Some c \<and> 0 \<le> val c"
proof (cases "type plant = ''windturbine''")
  case True
  have "0 \<le> (of_int (mx * wind fs) :: rat) / 100"
    using assms(3,4) by simp
  then have "0 \<le> fl (of_int (mx * wind fs) / 100)"
    by (rule fl_nonneg)
  with True assms(1,2) show ?thesis
    by (auto simp: calculate_pmax_def)
next
  case False
  with assms(1) have "m = pmax plant"
    by (auto simp: calculate_pmax_def split: if_splits)
  with assms(2,3) show ?thesis
    by simp
qed

lemma round_15_2: "round_half_even (15 / 2) = 8"
  by code_simp

lemma fl_4_5: "fl (4 / 5) = 3602879701896397 / 4503599627370496"
  by code_simp

lemma fl_1_minus_4_5:
  "fl (900719925474099 / 4503599627370496) = 900719925474099 / 4503599627370496"
  by code_simp

text \<open>
  C5, as claimed, fails: the claim bounds every assigned output by the unit's effective
  maximum. On \<open>request3\<close> (load 1, 25 percent wind) the wind park of 3 has the effective
  capacity 0.75 and is assigned \<^verbatim>\<open>round(0.75, 1)\<close>, the float 0.8.
\<close>

theorem assigned_output_above_capacity:
  "fst (get_production_plan request3 store3) =
     Inr [\<lparr>name = ''wind'', p = 3602879701896397 / 4503599627370496\<rparr>]
   \<and> calculate_pmax (fuels request3) (store3 0) = Inr (Some (PyFloat (3 / 4)))
   \<and> (3 / 4 :: rat) < 3602879701896397 / 4503599627370496"
  by (simp add: example_defs engine_defs fl_numeral fl_1 fl_3_4 round_15_2 fl_4_5 fl_1_minus_4_5
      cost_key_def Let_def)

text \<open>
  C5, amended. In every returned plan, for a request whose units are distinct objects with a
  non-negative integer \<^verbatim>\<open>pmax\<close> and whose wind percentage is non-negative, every entry
  belongs to one unit of the request, and its assigned output is at least 0 and at most
  that unit's effective maximum (the capacity \<^verbatim>\<open>calculate_pmax\<close> derives from the input
  record) rounded to one decimal place.
\<close>

theorem assigned_output_bounds:
  assumes "get_production_plan self h = (Inr plan, h')"
    and "distinct (powerplants self)"
    and "0 \<le> wind (fuels self)"
    and "\<forall>a\<in>set (powerplants self). \<exists>mx. pmax (h a) = Some (PyInt mx) \<and> 0 \<le> mx"
  shows "\<exists>ranked. mset ranked = mset (powerplants self)
     \<and> list_all2 (\<lambda>item a. ResultItem.name item = Powerplant.name (h a) \<and> 0 \<le> p item
          \<and> (\<exists>c. calculate_pmax (fuels self) (h a) = Inr (Some c) \<and> p item \<le> round1 c))
        plan ranked"
proof -
  let ?plants = "powerplants self"
  let ?ranked = "sort_key (cost_key h') ?plants"
  from assms(1) obtain r where
    d: "derive_loop (fuels self) ?plants h = (None, h')"
    and al: "allocate h' ?ranked (PyInt (load self)) None [] = Inr (r, plan)"
    by (auto simp: get_production_plan_Inr get_sorted_Inr)
  have cap: "\<exists>c. calculate_pmax (fuels self) (h a) = Inr (Some c) \<and> pmax (h' a) = Some c \<and> 0 \<le> val c"
    if "a \<in> set ?plants" for a
  proof -
    from assms(4) that obtain mx where mx: "pmax (h a) = Some (PyInt mx)" "0 \<le> mx"
      by auto
    have eq: "calculate_pmax (fuels self) (h a) = Inr (pmax (h' a))"
      by (rule derive_loop_pmax [OF d assms(2) that])
    from calculate_pmax_nonneg [OF eq mx assms(3)] eq show ?thesis
      by auto
  qed
  then have "\<forall>a\<in>set ?ranked. \<exists>c. pmax (h' a) = Some c \<and> 0 \<le> val c"
    by auto
  from allocate_bounds [OF this al] have
    "list_all2 (\<lambda>item a. ResultItem.name item = Powerplant.name (h' a) \<and> 0 \<le> p item
          \<and> p item \<le> round1 (effective_capacity (h' a))) plan ?ranked"
    by simp
  then have "list_all2 (\<lambda>item a. ResultItem.name item = Powerplant.name (h a) \<and> 0 \<le> p item
          \<and> (\<exists>c. calculate_pmax (fuels self) (h a) = Inr (Some c) \<and> p item \<le> round1 c))
        plan ?ranked"
  proof (rule list.rel_mono_strong)
    fix item a
    assume "item \<in> set plan" and "a \<in> set ?ranked"
      and "ResultItem.name item = Powerplant.name (h' a) \<and> 0 \<le> p item
          \<and> p item \<le> round1 (effective_capacity (h' a))"
    then show "ResultItem.name item = Powerplant.name (h a) \<and> 0 \<le> p item
          \<and> (\<exists>c. calculate_pmax (fuels self) (h a) = Inr (Some c) \<and> p item \<le> round1 c)"
      using cap [of a] derive_loop_frame(1) [OF d, of a]
      by (auto simp: effective_capacity_def)
  qed
  moreover have "mset ?ranked = mset ?plants"
    by simp
  ultimately show ?thesis
    by blast
qed

theorem assigned_output_bounds_witness:
  "fst (get_production_plan request1 store1) =
     Inr [\<lparr>name = ''wind'', p = 120\<rparr>, \<lparr>name = ''gasA'', p = 360\<rparr>, \<lparr>name = ''gasB'', p = 0\<rparr>]
   \<and> distinct (powerplants request1) \<and> 0 \<le> wind (fuels request1)
   \<and> powerplants request1 = [1, 2, 0]
   \<and> pmax (store1 0) = Some (PyInt 200) \<and> pmax (store1 1) = Some (PyInt 400)
   \<and> pmax (store1 2) = Some (PyInt 200)
   \<and> (\<exists>ranked. mset ranked = mset (powerplants request1)
     \<and> list_all2 (\<lambda>item a. ResultItem.name item = Powerplant.name (store1 a) \<and> 0 \<le> p item
          \<and> (\<exists>c. calculate_pmax (fuels request1) (store1 a) = Inr (Some c) \<and> p item \<le> round1 c))
        [\<lparr>name = ''wind'', p = 120\<rparr>, \<lparr>name = ''gasA'', p = 360\<rparr>, \<lparr>name = ''gasB'', p = 0\<rparr>]
        ranked)"
proof -
  have u: "distinct (powerplants request1)" "0 \<le> wind (fuels request1)"
    "powerplants request1 = [1, 2, 0]"
    "pmax (store1 0) = Some (PyInt 200)" "pmax (store1 1) = Some (PyInt 400)"
    "pmax (store1 2) = Some (PyInt 200)"
    by (simp_all add: example_defs)
  have v: "\<forall>a\<in>set (powerplants request1). \<exists>mx. pmax (store1 a) = Some (PyInt mx) \<and> 0 \<le> mx"
    by (simp add: example_defs)
  show ?thesis
    by (intro conjI request1_plan u assigned_output_bounds [OF request1_result u(1,2) v])
qed

section \<open>The plan's total and the requested load\<close>

text \<open>Below \<open>2 ^ 31\<close> in magnitude a float operation errs by at most \<open>2 powi - 23\<close>.\<close>

lemma fl_error_31:
  assumes "\<bar>x\<bar> < 2147483648"
  shows "\<bar>fl x - x\<bar> \<le> 1 / 8388608"
proof -
  have "\<bar>x\<bar> < 2 powi 31"
    using assms by simp
  from fl_error_bound [OF this] have "\<bar>fl x - x\<bar> \<le> 2 powi (- 23)"
    by simp
  then show ?thesis
    by (simp add: power_int_minus_divide)
qed

lemma py_float_error:
  assumes "\<bar>val x\<bar> < 2147483648"
  shows "\<bar>py_float x - val x\<bar> \<le> 1 / 8388608"
  using assms fl_error_31 by (cases x) auto

lemma round1_error:
  assumes "0 \<le> val x" and "val x < 2147483647"
  shows "0 \<le> round1 x" and "\<bar>round1 x - val x\<bar> \<le> 1 / 20 + 1 / 8388608"
proof -
  show "0 \<le> round1 x"
    by (rule round1_nonneg [OF assms(1)])
  define d where "d = (of_int (round_half_even (val x * 10)) :: rat) / 10"
  have "\<bar>of_int (round_half_even (val x * 10)) - val x * 10\<bar> \<le> 1 / 2"
    by (rule round_half_even_error)
  then have d: "\<bar>d - val x\<bar> \<le> 1 / 20"
    unfolding d_def by (simp add: abs_le_iff field_simps)
  with assms have "\<bar>d\<bar> < 2147483648"
    by linarith
  then have "\<bar>fl d - d\<bar> \<le> 1 / 8388608"
    by (rule fl_error_31)
  with d show "\<bar>round1 x - val x\<bar> \<le> 1 / 20 + 1 / 8388608"
    unfolding round1_eq d_def [symmetric] by linarith
qed

text \<open>One round of the loop that assigns \<open>round1 x\<close> for some \<open>x\<close> between 0 and the remaining load.\<close>

lemma assign_step:
  assumes "- 1 \<le> val r" and "val r < 2147483647" and "0 \<le> val x" and "val x \<le> val r"
  defines "r1 \<equiv> py_sub r (PyFloat (round1 x))"
  shows "\<bar>val r - round1 x - val r1\<bar> \<le> 2 / 8388608"
    and "- (1 / 20) - 3 / 8388608 \<le> val r1"
    and "val r1 \<le> val r + 2 / 8388608"
proof -
  let ?q = "round1 x"
  have x: "val x < 2147483647"
    using assms(2,4) by linarith
  note q = round1_error [OF assms(3) x]
  have "\<bar>val r\<bar> < 2147483648"
    using assms(1,2) by linarith
  then have fr: "\<bar>py_float r - val r\<bar> \<le> 1 / 8388608"
    by (rule py_float_error)
  have r1: "val r1 = fl (py_float r - ?q)"
    unfolding r1_def by (cases r) simp_all
  have "\<bar>py_float r - ?q\<bar> < 2147483648"
    using q fr assms(1,2,4) by linarith
  then have e: "\<bar>fl (py_float r - ?q) - (py_float r - ?q)\<bar> \<le> 1 / 8388608"
    by (rule fl_error_31)
  show "\<bar>val r - ?q - val r1\<bar> \<le> 2 / 8388608"
    using e fr unfolding r1 by linarith
  show "- (1 / 20) - 3 / 8388608 \<le> val r1"
    using e fr q assms(4) unfolding r1 by linarith
  show "val r1 \<le> val r + 2 / 8388608"
    using e fr q(1) unfolding r1 by linarith
qed

lemma allocate_conservation:
  assumes "\<forall>a\<in>set as. \<exists>c. pmax (h a) = Some c \<and> 0 \<le> val c"
    and "allocate h as r pw acc = Inr (r', plan)"
    and "\<bar>L - sum_list (map p acc) - val r\<bar> \<le> E"
    and "- (1 / 20) - 3 / 8388608 \<le> val r" and "val r \<le> U"
    and "U + 2 / 8388608 * of_nat (length as) \<le> 2147483646"
  shows "\<bar>L - sum_list (map p plan) - val r'\<bar> \<le> E + 2 / 8388608 * of_nat (length as)
     \<and> - (1 / 20) - 3 / 8388608 \<le> val r'
     \<and> val r' \<le> U + 2 / 8388608 * of_nat (length as)"
  using assms
proof (induction as arbitrary: r pw acc E U)
  case Nil
  then show ?case
    by simp
next
  case (Cons a as)
  from Cons.prems(1) obtain c where c: "pmax (h a) = Some c" and c0: "0 \<le> val c"
    by auto
  have "U \<le> U + 2 / 8388608 * of_nat (length (a # as))"
    by simp
  with Cons.prems(5,6) have small1: "val r < 2147483647"
    by linarith
  from Cons.prems(4) have small2: "- 1 \<le> val r"
    by linarith
  note small = small1 small2
  have "\<exists>q r1 pw1. allocate h as r1 pw1 (acc @ [\<lparr>name = Powerplant.name (h a), p = q\<rparr>]) = Inr (r', plan)
      \<and> \<bar>val r - q - val r1\<bar> \<le> 2 / 8388608
      \<and> - (1 / 20) - 3 / 8388608 \<le> val r1 \<and> val r1 \<le> val r + 2 / 8388608"
  proof (cases "0 < val r")
    case False
    with Cons.prems(2) have
      "allocate h as r (Some 0) (acc @ [\<lparr>name = Powerplant.name (h a), p = 0\<rparr>]) = Inr (r', plan)"
      by simp
    with Cons.prems(4) show ?thesis
      by (intro exI [of _ 0] exI [of _ r] exI [of _ "Some 0"]) simp
  next
    case pos: True
    show ?thesis
    proof (cases "val c \<le> val r")
      case True
      with pos Cons.prems(2) c
      have "allocate h as (py_sub r (PyFloat (round1 c))) (Some (round1 c))
          (acc @ [\<lparr>name = Powerplant.name (h a), p = round1 c\<rparr>]) = Inr (r', plan)"
        by (simp add: Let_def round1_def split: if_splits)
      with assign_step [OF small(2,1) c0 True] show ?thesis
        by blast
    next
      case False
      with pos Cons.prems(2) c
      have "allocate h as (py_sub r (PyFloat (round1 r))) (Some (round1 r))
          (acc @ [\<lparr>name = Powerplant.name (h a), p = round1 r\<rparr>]) = Inr (r', plan)"
        by (simp add: Let_def round1_def split: if_splits)
      moreover have "0 \<le> val r" "val r \<le> val r"
        using pos by simp_all
      ultimately show ?thesis
        using assign_step [OF small(2,1), of r] by blast
    qed
  qed
  then obtain q r1 pw1 where
    rec: "allocate h as r1 pw1 (acc @ [\<lparr>name = Powerplant.name (h a), p = q\<rparr>]) = Inr (r', plan)"
    and st: "\<bar>val r - q - val r1\<bar> \<le> 2 / 8388608"
      "- (1 / 20) - 3 / 8388608 \<le> val r1" "val r1 \<le> val r + 2 / 8388608"
    by blast
  have caps: "\<forall>a\<in>set as. \<exists>c. pmax (h a) = Some c \<and> 0 \<le> val c"
    using Cons.prems(1) by simp
  have "sum_list (map p (acc @ [\<lparr>name = Powerplant.name (h a), p = q\<rparr>])) =
      sum_list (map p acc) + q"
    by simp
  with Cons.prems(3) st(1)
  have e1: "\<bar>L - sum_list (map p (acc @ [\<lparr>name = Powerplant.name (h a), p = q\<rparr>])) - val r1\<bar>
      \<le> E + 2 / 8388608"
    by linarith
  have u1: "val r1 \<le> U + 2 / 8388608"
    using st(3) Cons.prems(5) by linarith
  have b1: "(U + 2 / 8388608) + 2 / 8388608 * of_nat (length as) \<le> 2147483646"
    using Cons.prems(6) by (simp add: add_divide_distrib)
  from Cons.IH [OF caps rec e1 st(2) u1 b1] show ?case
    by (simp add: add_divide_distrib add.assoc)
qed

lemma derived_capacities:
  assumes "derive_loop fs as h = (None, h')" and "distinct as" and "0 \<le> wind fs"
    and "\<forall>a\<in>set as. \<exists>mx. pmax (h a) = Some (PyInt mx) \<and> 0 \<le> mx"
  shows "\<forall>a\<in>set as. \<exists>c. pmax (h' a) = Some c \<and> 0 \<le> val c"
proof
  fix a
  assume a: "a \<in> set as"
  with assms(4) obtain mx where mx: "pmax (h a) = Some (PyInt mx)" "0 \<le> mx"
    by auto
  have eq: "calculate_pmax fs (h a) = Inr (pmax (h' a))"
    by (rule derive_loop_pmax [OF assms(1,2) a])
  from calculate_pmax_nonneg [OF eq mx assms(3)] show "\<exists>c. pmax (h' a) = Some c \<and> 0 \<le> val c" .
qed

lemma request1_allocate:
  "allocate (snd (get_sorted_powerplants_with_pmax_and_cost request1 store1)) [0, 1, 2]
       (PyInt (load request1)) None [] =
     Inr (PyFloat 0,
          [\<lparr>name = ''wind'', p = 120\<rparr>, \<lparr>name = ''gasA'', p = 360\<rparr>, \<lparr>name = ''gasB'', p = 0\<rparr>])"
  by (simp add: example_defs engine_defs fl_numeral fl_0 round_half_even_numeral cost_key_def Let_def)

text \<open>
  C4, as claimed, fails: the claim has the assigned outputs of every returned plan sum to
  the requested load within 0.1. On \<open>request2\<close> (load 1000, one gas plant of 100) the engine
  returns the plan that assigns 100; nothing in the loop checks that the load was covered.
\<close>

theorem plan_total_short_of_load:
  "fst (get_production_plan request2 store2) = Inr [\<lparr>name = ''gas'', p = 100\<rparr>]
   \<and> load request2 = 1000
   \<and> \<not> \<bar>sum_list (map p [\<lparr>name = ''gas'', p = 100\<rparr>]) - of_int (load request2)\<bar> \<le> 1 / 10"
  by (simp add: example_defs engine_defs fl_numeral cost_key_def Let_def)

text \<open>
  C4, amended. For a request with a load between 0 and \<open>10 ^ 9\<close>, at most \<open>10 ^ 5\<close> units,
  all distinct objects with a non-negative integer \<^verbatim>\<open>pmax\<close>, and a non-negative wind
  percentage: when the loop of \<^verbatim>\<open>get_production_plan\<close> ends, the plan is returned, the sum
  of its assigned outputs equals the requested load less the remaining load the loop ends
  on to within 0.025 (the accumulated float error), and so equals the requested load to
  within 0.1 whenever that remaining load is 0 or below, that is whenever the units covered
  the load.
\<close>

theorem plan_total_and_remaining_load:
  assumes "get_sorted_powerplants_with_pmax_and_cost self h = (Inr ranked, h')"
    and "allocate h' ranked (PyInt (load self)) None [] = Inr (r, plan)"
    and "0 \<le> load self" and "load self \<le> 1000000000"
    and "length (powerplants self) \<le> 100000"
    and "distinct (powerplants self)" and "0 \<le> wind (fuels self)"
    and "\<forall>a\<in>set (powerplants self). \<exists>mx. pmax (h a) = Some (PyInt mx) \<and> 0 \<le> mx"
  shows "get_production_plan self h = (Inr plan, h')
     \<and> \<bar>of_int (load self) - sum_list (map p plan) - val r\<bar> \<le> 1 / 40
     \<and> (val r \<le> 0 \<longrightarrow> \<bar>sum_list (map p plan) - of_int (load self)\<bar> \<le> 1 / 10)"
proof -
  let ?plants = "powerplants self"
  let ?L = "of_int (load self) :: rat"
  from assms(1) have d: "derive_loop (fuels self) ?plants h = (None, h')"
    and rk: "ranked = sort_key (cost_key h') ?plants"
    by (simp_all add: get_sorted_Inr)
  have "\<forall>a\<in>set ?plants. \<exists>c. pmax (h' a) = Some c \<and> 0 \<le> val c"
    by (rule derived_capacities [OF d assms(6,7,8)])
  then have caps: "\<forall>a\<in>set ranked. \<exists>c. pmax (h' a) = Some c \<and> 0 \<le> val c"
    by (simp add: rk)
  have n: "(of_nat (length ranked) :: rat) \<le> 100000"
    using assms(5) by (simp add: rk)
  have L: "0 \<le> ?L" "?L \<le> 1000000000"
    using assms(3,4) by simp_all
  have i1: "\<bar>?L - sum_list (map p []) - val (PyInt (load self))\<bar> \<le> 0"
    by simp
  have i2: "- (1 / 20) - 3 / 8388608 \<le> val (PyInt (load self))"
    using L(1) by simp
  have i3: "val (PyInt (load self)) \<le> ?L"
    by simp
  have i4: "?L + 2 / 8388608 * of_nat (length ranked) \<le> 2147483646"
    using L(2) n by linarith
  from allocate_conservation [OF caps assms(2) i1 i2 i3 i4]
  have c1: "\<bar>?L - sum_list (map p plan) - val r\<bar> \<le> 0 + 2 / 8388608 * of_nat (length ranked)"
    and c2: "- (1 / 20) - 3 / 8388608 \<le> val r"
    by blast+
  from c1 n have e: "\<bar>?L - sum_list (map p plan) - val r\<bar> \<le> 1 / 40"
    by linarith
  from e c2 have "val r \<le> 0 \<Longrightarrow> \<bar>sum_list (map p plan) - ?L\<bar> \<le> 1 / 10"
    by linarith
  moreover have "get_production_plan self h = (Inr plan, h')"
    using assms(1,2) by (simp add: get_production_plan_def)
  ultimately show ?thesis
    using e by blast
qed

theorem plan_total_and_remaining_load_witness:
  "get_sorted_powerplants_with_pmax_and_cost request1 store1 =
     (Inr [0, 1, 2], snd (get_sorted_powerplants_with_pmax_and_cost request1 store1))
   \<and> allocate (snd (get_sorted_powerplants_with_pmax_and_cost request1 store1)) [0, 1, 2]
       (PyInt (load request1)) None [] =
     Inr (PyFloat 0,
          [\<lparr>name = ''wind'', p = 120\<rparr>, \<lparr>name = ''gasA'', p = 360\<rparr>, \<lparr>name = ''gasB'', p = 0\<rparr>])
   \<and> load request1 = 480 \<and> powerplants request1 = [1, 2, 0] \<and> wind (fuels request1) = 60
   \<and> pmax (store1 0) = Some (PyInt 200) \<and> pmax (store1 1) = Some (PyInt 400)
   \<and> pmax (store1 2) = Some (PyInt 200)
   \<and> get_production_plan request1 store1 =
     (Inr [\<lparr>name = ''wind'', p = 120\<rparr>, \<lparr>name = ''gasA'', p = 360\<rparr>, \<lparr>name = ''gasB'', p = 0\<rparr>],
      snd (get_sorted_powerplants_with_pmax_and_cost request1 store1))
   \<and> \<bar>sum_list (map p
          [\<lparr>name = ''wind'', p = 120\<rparr>, \<lparr>name = ''gasA'', p = 360\<rparr>, \<lparr>name = ''gasB'', p = 0\<rparr>])
        - of_int (load request1)\<bar> \<le> 1 / 10"
proof -
  have s: "get_sorted_powerplants_with_pmax_and_cost request1 store1 =
      (Inr [0, 1, 2], snd (get_sorted_powerplants_with_pmax_and_cost request1 store1))"
    using request1_sorted by (simp add: prod_eq_iff)
  have u: "load request1 = 480" "powerplants request1 = [1, 2, 0]" "wind (fuels request1) = 60"
    "pmax (store1 0) = Some (PyInt 200)" "pmax (store1 1) = Some (PyInt 400)"
    "pmax (store1 2) = Some (PyInt 200)"
    by (simp_all add: example_defs)
  have v: "0 \<le> load request1" "load request1 \<le> 1000000000"
    "length (powerplants request1) \<le> 100000" "distinct (powerplants request1)"
    "0 \<le> wind (fuels request1)"
    "\<forall>a\<in>set (powerplants request1). \<exists>mx. pmax (store1 a) = Some (PyInt mx) \<and> 0 \<le> mx"
    by (simp_all add: example_defs)
  note t = plan_total_and_remaining_load [OF s request1_allocate v]
  from t have t1: "get_production_plan request1 store1 =
     (Inr [\<lparr>name = ''wind'', p = 120\<rparr>, \<lparr>name = ''gasA'', p = 360\<rparr>, \<lparr>name = ''gasB'', p = 0\<rparr>],
      snd (get_sorted_powerplants_with_pmax_and_cost request1 store1))"
    by (rule conjunct1)
  from t have t2: "\<bar>sum_list (map p
          [\<lparr>name = ''wind'', p = 120\<rparr>, \<lparr>name = ''gasA'', p = 360\<rparr>, \<lparr>name = ''gasB'', p = 0\<rparr>])
        - of_int (load request1)\<bar> \<le> 1 / 10"
    by simp
  show ?thesis
    by (intro conjI s request1_allocate u t1 t2)
qed

end
